theory Spec2Isabelle
  imports Main "HOL-Library.AList"
begin

section \<open>Parsed JSON and the Python operations the tools apply to it\<close>

text \<open>
  Both tools receive the value that \<^verbatim>\<open>json.load\<close> returns. An object is kept as the
  list of its items in insertion order (a parsed \<^verbatim>\<open>dict\<close> has distinct keys); numbers
  are the integers. Strings are lists of 8-bit characters, read as code points 0..255;
  case mapping is the ASCII one.
\<close>

datatype json =
    JNull
  | JBool bool
  | JNum int
  | JStr string
  | JArr "json list"
  | JObj "(string \<times> json) list"

text \<open>The exceptions that the operations below can raise.\<close>

datatype exn = KeyError | TypeError | AttributeError

type_synonym 'a res = "exn + 'a"

definition bindE :: "'a res \<Rightarrow> ('a \<Rightarrow> 'b res) \<Rightarrow> 'b res" where
  "bindE m f = (case m of Inl e \<Rightarrow> Inl e | Inr x \<Rightarrow> f x)"

lemma bindE_simps [simp]:
  "bindE (Inl e) f = Inl e"
  "bindE (Inr x) f = f x"
  by (simp_all add: bindE_def)

lemma bindE_cong [fundef_cong]:
  "m = m' \<Longrightarrow> (\<And>x. m' = Inr x \<Longrightarrow> f x = f' x) \<Longrightarrow> bindE m f = bindE m' f'"
  by (cases m') (simp_all add: bindE_def)


lemma map_of_update:
  "map_of (AList.update k v al) = (map_of al)(k \<mapsto> v)"
  by (rule update_conv')

text \<open>A \<^verbatim>\<open>for\<close> loop whose body updates a state and may raise.\<close>

fun forM :: "'a list \<Rightarrow> ('a \<Rightarrow> 's \<Rightarrow> 's res) \<Rightarrow> 's \<Rightarrow> 's res" where
  "forM [] body s = Inr s"
| "forM (x # xs) body s = bindE (body x s) (forM xs body)"

text \<open>\<^verbatim>\<open>bool(x)\<close>: the truth value of a JSON value.\<close>

fun truthy :: "json \<Rightarrow> bool" where
  "truthy JNull = False"
| "truthy (JBool b) = b"
| "truthy (JNum n) = (n \<noteq> 0)"
| "truthy (JStr s) = (s \<noteq> [])"
| "truthy (JArr xs) = (xs \<noteq> [])"
| "truthy (JObj kv) = (kv \<noteq> [])"

text \<open>\<^verbatim>\<open>sub in s\<close> on two strings: \<open>sub\<close> occurs in \<open>s\<close>.\<close>

definition starts_with :: "string \<Rightarrow> string \<Rightarrow> bool" where
  "starts_with p s = (take (length p) s = p)"

fun str_contains :: "string \<Rightarrow> string \<Rightarrow> bool" where
  "str_contains sub [] = (sub = [])"
| "str_contains sub (c # cs) = (starts_with sub (c # cs) \<or> str_contains sub cs)"

declare str_contains.simps [simp del]

text \<open>
  \<^verbatim>\<open>key in c\<close> for a string \<open>key\<close>: key membership on a dict, element membership on a
  list, substring test on a string, \<^verbatim>\<open>TypeError\<close> on None, a bool or a number.
\<close>

fun py_contains :: "string \<Rightarrow> json \<Rightarrow> bool res" where
  "py_contains key (JObj kv) = Inr (map_of kv key \<noteq> None)"
| "py_contains key (JArr xs) = Inr (JStr key \<in> set xs)"
| "py_contains key (JStr s) = Inr (str_contains key s)"
| "py_contains key _ = Inl TypeError"

text \<open>\<^verbatim>\<open>c.get(key, default)\<close>: only a dict has the method.\<close>

fun py_get :: "json \<Rightarrow> string \<Rightarrow> json \<Rightarrow> json res" where
  "py_get (JObj kv) key dflt = Inr (case map_of kv key of Some v \<Rightarrow> v | None \<Rightarrow> dflt)"
| "py_get _ key dflt = Inl AttributeError"

text \<open>\<^verbatim>\<open>c[key]\<close> for a string \<open>key\<close>.\<close>

fun py_getitem :: "json \<Rightarrow> string \<Rightarrow> json res" where
  "py_getitem (JObj kv) key = (case map_of kv key of Some v \<Rightarrow> Inr v | None \<Rightarrow> Inl KeyError)"
| "py_getitem _ key = Inl TypeError"

text \<open>\<^verbatim>\<open>c.items()\<close> and \<^verbatim>\<open>c.keys()\<close>.\<close>

fun py_items :: "json \<Rightarrow> (string \<times> json) list res" where
  "py_items (JObj kv) = Inr kv"
| "py_items _ = Inl AttributeError"

fun py_keys :: "json \<Rightarrow> string list res" where
  "py_keys (JObj kv) = Inr (map fst kv)"
| "py_keys _ = Inl AttributeError"

text \<open>\<^verbatim>\<open>for x in c\<close>: the elements of a list, the keys of a dict, the characters of a string.\<close>

fun py_iter :: "json \<Rightarrow> json list res" where
  "py_iter (JArr xs) = Inr xs"
| "py_iter (JObj kv) = Inr (map (\<lambda>p. JStr (fst p)) kv)"
| "py_iter (JStr s) = Inr (map (\<lambda>c. JStr [c]) s)"
| "py_iter _ = Inl TypeError"

text \<open>\<^verbatim>\<open>len(c)\<close>.\<close>

fun py_len :: "json \<Rightarrow> nat res" where
  "py_len (JArr xs) = Inr (length xs)"
| "py_len (JObj kv) = Inr (length kv)"
| "py_len (JStr s) = Inr (length s)"
| "py_len _ = Inl TypeError"

text \<open>
  Members of a \<^verbatim>\<open>set\<close> and keys of a \<^verbatim>\<open>dict\<close> are compared by hash and equality: a list
  or a dict is unhashable, and \<^verbatim>\<open>True\<close> and \<^verbatim>\<open>1\<close> are the same key.
\<close>

datatype hkey = HNone | HInt int | HStr string

fun py_hash :: "json \<Rightarrow> hkey res" where
  "py_hash JNull = Inr HNone"
| "py_hash (JBool b) = Inr (HInt (if b then 1 else 0))"
| "py_hash (JNum n) = Inr (HInt n)"
| "py_hash (JStr s) = Inr (HStr s)"
| "py_hash _ = Inl TypeError"

section \<open>Strings, serialisation and the regular expressions\<close>

definition is_lower :: "char \<Rightarrow> bool" where
  "is_lower c = (97 \<le> (of_char c :: nat) \<and> (of_char c :: nat) \<le> 122)"

definition is_upper :: "char \<Rightarrow> bool" where
  "is_upper c = (65 \<le> (of_char c :: nat) \<and> (of_char c :: nat) \<le> 90)"

definition is_digit :: "char \<Rightarrow> bool" where
  "is_digit c = (48 \<le> (of_char c :: nat) \<and> (of_char c :: nat) \<le> 57)"

definition lower_char :: "char \<Rightarrow> char" where
  "lower_char c = (if is_upper c then char_of ((of_char c :: nat) + 32) else c)"

definition upper_char :: "char \<Rightarrow> char" where
  "upper_char c = (if is_lower c then char_of ((of_char c :: nat) - 32) else c)"

text \<open>\<^verbatim>\<open>s.lower()\<close>.\<close>

definition lower :: "string \<Rightarrow> string" where
  "lower s = map lower_char s"

text \<open>
  \<^verbatim>\<open>s.title()\<close>: a letter is upper-cased when the character before it is not a letter
  and lower-cased when it is.
\<close>

fun title_from :: "bool \<Rightarrow> string \<Rightarrow> string" where
  "title_from prev [] = []"
| "title_from prev (c # cs) =
     (if prev then lower_char c else upper_char c)
       # title_from (is_lower c \<or> is_upper c) cs"

definition title :: "string \<Rightarrow> string" where
  "title s = title_from False s"

text \<open>\<^verbatim>\<open>sep.join(parts)\<close>.\<close>

fun join :: "string \<Rightarrow> string list \<Rightarrow> string" where
  "join sep [] = []"
| "join sep [x] = x"
| "join sep (x # y # ys) = x @ sep @ join sep (y # ys)"

text \<open>Decimal digits of a number, as \<^verbatim>\<open>str(n)\<close> prints them.\<close>

definition digit_char :: "nat \<Rightarrow> char" where
  "digit_char d = char_of (48 + d)"

fun digits_of :: "nat \<Rightarrow> string" where
  "digits_of n = (if n < 10 then [digit_char n]
                  else digits_of (n div 10) @ [digit_char (n mod 10)])"

declare digits_of.simps [simp del]

definition show_int :: "int \<Rightarrow> string" where
  "show_int i = (if i < 0 then CHR ''-'' # digits_of (nat (- i)) else digits_of (nat i))"

text \<open>
  \<^verbatim>\<open>json.dumps\<close> with its defaults (\<^verbatim>\<open>ensure_ascii=True\<close>, separators \<^verbatim>\<open>", "\<close> and
  \<^verbatim>\<open>": "\<close>): inside a string the quote and the backslash are escaped, a character
  outside the range space..tilde becomes a short escape or \<^verbatim>\<open>\u00xx\<close>.
\<close>

definition hex_digit :: "nat \<Rightarrow> char" where
  "hex_digit d = (if d < 10 then char_of (48 + d) else char_of (87 + d))"

definition escape_char :: "char \<Rightarrow> string" where
  "escape_char c =
     (let n = (of_char c :: nat) in
      if n = 0x22 then [CHR 0x5C, CHR 0x22]
      else if n = 0x5C then [CHR 0x5C, CHR 0x5C]
      else if n = 0x0A then [CHR 0x5C, CHR ''n'']
      else if n = 0x0D then [CHR 0x5C, CHR ''r'']
      else if n = 0x09 then [CHR 0x5C, CHR ''t'']
      else if n = 0x08 then [CHR 0x5C, CHR ''b'']
      else if n = 0x0C then [CHR 0x5C, CHR ''f'']
      else if n < 0x20 \<or> 0x7E < n
        then [CHR 0x5C, CHR ''u'', CHR ''0'', CHR ''0'', hex_digit (n div 16), hex_digit (n mod 16)]
      else [c])"

definition quote :: "string \<Rightarrow> string" where
  "quote s = CHR 0x22 # concat (map escape_char s) @ [CHR 0x22]"

fun json_dumps :: "json \<Rightarrow> string" where
  "json_dumps JNull = ''null''"
| "json_dumps (JBool b) = (if b then ''true'' else ''false'')"
| "json_dumps (JNum n) = show_int n"
| "json_dumps (JStr s) = quote s"
| "json_dumps (JArr xs) = ''['' @ join '', '' (map json_dumps xs) @ '']''"
| "json_dumps (JObj kv) =
     ''{'' @ join '', '' (map (\<lambda>p. quote (fst p) @ '': '' @ json_dumps (snd p)) kv) @ ''}''"

text \<open>
  \<^verbatim>\<open>$\<close> matches at the end of the string and before a newline that ends the string.
\<close>

definition at_end :: "string \<Rightarrow> bool" where
  "at_end rest = (rest = [] \<or> rest = [CHR 0x0A])"

text \<open>\<^verbatim>\<open>re.match(r'^[a-z][a-z0-9_]*$', s)\<close> succeeds.\<close>

definition is_ident_char :: "char \<Rightarrow> bool" where
  "is_ident_char c = (is_lower c \<or> is_digit c \<or> c = CHR ''_'')"

definition match_snake_case :: "string \<Rightarrow> bool" where
  "match_snake_case s =
     (case s of [] \<Rightarrow> False
      | c # cs \<Rightarrow> is_lower c \<and> at_end (dropWhile is_ident_char cs))"

text \<open>\<^verbatim>\<open>re.match(r'^\d+\.\d+\.\d+$', s)\<close> succeeds.\<close>

definition digits1 :: "string \<Rightarrow> string option" where
  "digits1 s = (case s of [] \<Rightarrow> None
      | c # cs \<Rightarrow> if is_digit c then Some (dropWhile is_digit cs) else None)"

definition expect :: "string \<Rightarrow> string \<Rightarrow> string option" where
  "expect lit s = (if starts_with lit s then Some (drop (length lit) s) else None)"

definition match_semver :: "string \<Rightarrow> bool" where
  "match_semver s =
     (case Option.bind (Option.bind (Option.bind (Option.bind (digits1 s)
             (expect ''.'')) digits1) (expect ''.'')) digits1 of
        None \<Rightarrow> False
      | Some rest \<Rightarrow> at_end rest)"

text \<open>
  \<^verbatim>\<open>re.match\<close> raises \<^verbatim>\<open>TypeError\<close> when its subject is not a string.
\<close>

fun re_match :: "(string \<Rightarrow> bool) \<Rightarrow> json \<Rightarrow> bool res" where
  "re_match p (JStr s) = Inr (p s)"
| "re_match p _ = Inl TypeError"

text \<open>
  One attempt of \<^verbatim>\<open>\{\{steps\.([^.]+)\.outputs\.([^}]+)\}\}\<close> at the head of a string:
  the two groups and the text after the match. Each class runs as far as it can; giving a
  character back never helps, since the literal that follows starts with the excluded
  character.
\<close>

definition match_ref_at :: "string \<Rightarrow> ((string \<times> string) \<times> string) option" where
  "match_ref_at s =
     (case expect ''{{steps.'' s of None \<Rightarrow> None
      | Some s1 \<Rightarrow>
         let g1 = takeWhile (\<lambda>c. c \<noteq> CHR ''.'') s1 in
         if g1 = [] then None
         else (case expect ''.outputs.'' (dropWhile (\<lambda>c. c \<noteq> CHR ''.'') s1) of None \<Rightarrow> None
           | Some s2 \<Rightarrow>
              let g2 = takeWhile (\<lambda>c. c \<noteq> CHR ''}'') s2 in
              if g2 = [] then None
              else (case expect ''}}'' (dropWhile (\<lambda>c. c \<noteq> CHR ''}'') s2) of None \<Rightarrow> None
                | Some rest \<Rightarrow> Some ((g1, g2), rest))))"

lemma expect_length: "expect lit s = Some r \<Longrightarrow> length r \<le> length s"
  by (auto simp: expect_def split: if_splits)

lemma expect_length_less:
  assumes "expect lit s = Some r" and "lit \<noteq> []"
  shows "length r < length s"
proof -
  from assms(1) have t: "take (length lit) s = lit" and r: "r = drop (length lit) s"
    by (auto simp: expect_def starts_with_def split: if_splits)
  from t have "length (take (length lit) s) = length lit" by simp
  then have "length lit \<le> length s" by simp
  with assms(2) r show ?thesis by (cases lit) auto
qed

lemma match_ref_at_shorter:
  assumes "match_ref_at s = Some (g, rest)"
  shows "length rest < length s"
proof -
  from assms obtain s1 s2 where
    s1: "expect ''{{steps.'' s = Some s1" and
    s2: "expect ''.outputs.'' (dropWhile (\<lambda>c. c \<noteq> CHR ''.'') s1) = Some s2" and
    r: "expect ''}}'' (dropWhile (\<lambda>c. c \<noteq> CHR ''}'') s2) = Some rest"
    by (auto simp: match_ref_at_def Let_def split: option.splits if_splits)
  have "length s1 < length s"
    using expect_length_less [OF s1] by simp
  moreover have "length s2 \<le> length s1"
    using expect_length [OF s2] length_dropWhile_le [of "\<lambda>c. c \<noteq> CHR ''.''" s1] by simp
  moreover have "length rest \<le> length s2"
    using expect_length [OF r] length_dropWhile_le [of "\<lambda>c. c \<noteq> CHR ''}''" s2] by simp
  ultimately show ?thesis by simp
qed

text \<open>\<^verbatim>\<open>re.findall\<close> of that pattern: the matches from left to right, without overlap.\<close>

function findall_refs :: "string \<Rightarrow> (string \<times> string) list" where
  "findall_refs [] = []"
| "findall_refs (c # cs) =
     (case match_ref_at (c # cs) of
        Some (g, rest) \<Rightarrow> g # findall_refs rest
      | None \<Rightarrow> findall_refs cs)"
  by pat_completeness auto
termination
  by (relation "measure length") (auto dest: match_ref_at_shorter)

text \<open>
  The tail shared by the four credential patterns,
  \<^verbatim>\<open>["\']?\s*[:=]\s*["\'][^"\']+["\']\<close>, tried at the head of a string. \<^verbatim>\<open>\s\<close> is the
  white space of a Python \<^verbatim>\<open>str\<close> pattern.
\<close>

definition is_space :: "char \<Rightarrow> bool" where
  "is_space c = (let n = (of_char c :: nat) in
     (0x09 \<le> n \<and> n \<le> 0x0D) \<or> (0x1C \<le> n \<and> n \<le> 0x20) \<or> n = 0x85 \<or> n = 0xA0)"

definition is_quote :: "char \<Rightarrow> bool" where
  "is_quote c = (c = CHR 0x22 \<or> c = CHR 0x27)"

definition match_assignment :: "string \<Rightarrow> bool" where
  "match_assignment s =
     (let s1 = (case s of c # cs \<Rightarrow> if is_quote c then cs else s | [] \<Rightarrow> s);
          s2 = dropWhile is_space s1
      in case s2 of [] \<Rightarrow> False
         | c # cs \<Rightarrow> (c = CHR '':'' \<or> c = CHR ''='') \<and>
            (case dropWhile is_space cs of [] \<Rightarrow> False
             | q # v \<Rightarrow> is_quote q \<and> takeWhile (\<lambda>c. \<not> is_quote c) v \<noteq> [] \<and>
                 dropWhile (\<lambda>c. \<not> is_quote c) v \<noteq> []))"

definition match_keyword :: "string \<Rightarrow> string \<Rightarrow> bool" where
  "match_keyword kw s = (case expect kw s of None \<Rightarrow> False | Some r \<Rightarrow> match_assignment r)"

text \<open>\<^verbatim>\<open>api[_-]?key\<close> followed by the shared tail.\<close>

definition match_api_key :: "string \<Rightarrow> bool" where
  "match_api_key s =
     (case expect ''api'' s of None \<Rightarrow> False
      | Some r \<Rightarrow>
          match_keyword ''key''
            (case r of c # cs \<Rightarrow> if c = CHR ''_'' \<or> c = CHR ''-'' then cs else r | [] \<Rightarrow> r))"

text \<open>\<^verbatim>\<open>re.search\<close>: the pattern matches at some position.\<close>

fun re_search :: "(string \<Rightarrow> bool) \<Rightarrow> string \<Rightarrow> bool" where
  "re_search p [] = p []"
| "re_search p (c # cs) = (p (c # cs) \<or> re_search p cs)"

section \<open>The validator\<close>

text \<open>
  A finding is kept as the message template and the values formatted into it:
  each constructor stands for one f-string of \<^verbatim>\<open>workflow_validator.py\<close>.
\<close>

datatype msg =
    MissingRequiredKey string
  | UnknownTopLevelKeys "string list"
  | MetadataFieldRequired string
  | WorkflowNameFormat string
  | SchemaVersionFormat string
  | ConsiderIdempotent
  | NoInputsDefined
  | InputMissingType string
  | InputMissingDescription string
  | InputStringNoValidation string
  | SecurityRequired
  | AuthRequiredUndeclared
  | SecretsHandlingUndeclared
  | InvalidSecretsHandling json
  | CredentialAgnostic
  | ConsiderRuntimeInjected
  | ConsiderMinimumRole
  | ConsiderRateLimit
  | NoSteps
  | StepMissingId nat
  | DuplicateStepId json
  | StepIdFormat string
  | StepMissingField string string
  | StepInvalidOperation string json
  | StepNoErrorHandling string
  | MutationNoOutputs string
  | StepNoTelemetry string
  | DependsOnUnknown json json
  | CircularDependency
  | UnknownStepRef json string
  | UndeclaredOutputRef json string string
  | HardcodedCredential string
  | AuditLogsNoPii
  | NoDocumentation
  | ConsiderSemanticGaps
  | NoObservability
  | NoValidationRules
  | NoDryRun
  | NoRollback

record validator =
  strict_mode :: bool
  errors :: "msg list"
  warnings :: "msg list"
  info :: "msg list"

definition WorkflowValidator :: "bool \<Rightarrow> validator" where
  "WorkflowValidator strict =
     \<lparr>strict_mode = strict, errors = [], warnings = [], info = []\<rparr>"

definition add_error :: "msg \<Rightarrow> validator \<Rightarrow> validator" where
  "add_error m v = v\<lparr>errors := errors v @ [m]\<rparr>"

definition add_warning :: "msg \<Rightarrow> validator \<Rightarrow> validator" where
  "add_warning m v = v\<lparr>warnings := warnings v @ [m]\<rparr>"

definition add_info :: "msg \<Rightarrow> validator \<Rightarrow> validator" where
  "add_info m v = v\<lparr>info := info v @ [m]\<rparr>"

subsection \<open>\<^verbatim>\<open>_validate_structure\<close>\<close>

definition required_keys :: "string list" where
  "required_keys = [''metadata'', ''inputs'', ''security'', ''steps'']"

definition valid_keys :: "string list" where
  "valid_keys = [''metadata'', ''inputs'', ''security'', ''validation'',
                 ''steps'', ''execution_config'', ''observability'', ''documentation'']"

text \<open>
  The unknown keys are a Python \<^verbatim>\<open>set\<close>; the finding keeps them in the order of the
  document.
\<close>

definition validate_structure :: "json \<Rightarrow> validator \<Rightarrow> validator res" where
  "validate_structure workflow v =
     bindE (forM required_keys (\<lambda>key v.
              bindE (py_contains key workflow) (\<lambda>present.
              Inr (if \<not> present then add_error (MissingRequiredKey key) v else v))) v) (\<lambda>v.
     bindE (py_keys workflow) (\<lambda>keys.
     let unknown = filter (\<lambda>k. k \<notin> set valid_keys) keys in
     Inr (if unknown \<noteq> [] then add_warning (UnknownTopLevelKeys unknown) v else v)))"

subsection \<open>\<^verbatim>\<open>_validate_metadata\<close>\<close>

definition required_metadata :: "string list" where
  "required_metadata = [''workflow_name'', ''workflow_id'', ''platform'', ''schema_version'']"

definition validate_metadata :: "json \<Rightarrow> validator \<Rightarrow> validator res" where
  "validate_metadata metadata v =
     bindE (forM required_metadata (\<lambda>field v.
              bindE (py_contains field metadata) (\<lambda>present.
              Inr (if \<not> present then add_error (MetadataFieldRequired field) v else v))) v) (\<lambda>v.
     bindE (py_contains ''workflow_name'' metadata) (\<lambda>has_name.
     bindE (if has_name
            then bindE (py_getitem metadata ''workflow_name'') (\<lambda>name.
                 bindE (re_match match_snake_case name) (\<lambda>ok.
                 Inr (if \<not> ok
                      then add_error (WorkflowNameFormat (case name of JStr n \<Rightarrow> n | _ \<Rightarrow> [])) v
                      else v)))
            else Inr v) (\<lambda>v.
     bindE (py_contains ''schema_version'' metadata) (\<lambda>has_version.
     bindE (if has_version
            then bindE (py_getitem metadata ''schema_version'') (\<lambda>version.
                 bindE (re_match match_semver version) (\<lambda>ok.
                 Inr (if \<not> ok
                      then add_error (SchemaVersionFormat (case version of JStr n \<Rightarrow> n | _ \<Rightarrow> [])) v
                      else v)))
            else Inr v) (\<lambda>v.
     bindE (py_contains ''idempotent'' metadata) (\<lambda>has_idem.
     Inr (if \<not> has_idem then add_warning ConsiderIdempotent v else v)))))))"

subsection \<open>\<^verbatim>\<open>_validate_inputs\<close>\<close>

definition validate_input_param :: "string \<times> json \<Rightarrow> validator \<Rightarrow> validator res" where
  "validate_input_param np v =
     (let name = fst np; param = snd np in
      bindE (py_contains ''type'' param) (\<lambda>has_type.
      let v = (if \<not> has_type then add_error (InputMissingType name) v else v) in
      bindE (py_contains ''description'' param) (\<lambda>has_descr.
      let v = (if \<not> has_descr then add_warning (InputMissingDescription name) v else v) in
      bindE (py_get param ''type'' JNull) (\<lambda>ty.
      if ty = JStr ''string''
      then bindE (py_contains ''validation'' param) (\<lambda>has_val.
           Inr (if \<not> has_val then add_info (InputStringNoValidation name) v else v))
      else Inr v))))"

definition validate_inputs :: "json \<Rightarrow> validator \<Rightarrow> validator res" where
  "validate_inputs inputs v =
     bindE (py_contains ''required'' inputs) (\<lambda>has_required.
     bindE (if has_required then Inr True else py_contains ''optional'' inputs) (\<lambda>declared.
     if \<not> declared then Inr (add_warning NoInputsDefined v)
     else
       bindE (py_get inputs ''required'' (JObj [])) (\<lambda>required.
       bindE (py_items required) (\<lambda>params.
       forM params validate_input_param v))))"

subsection \<open>\<^verbatim>\<open>_validate_security\<close>\<close>

definition secrets_handling_values :: "json list" where
  "secrets_handling_values = [JStr ''runtime_injected'', JStr ''vault'', JStr ''env_var'']"

definition validate_security :: "json \<Rightarrow> validator \<Rightarrow> validator res" where
  "validate_security security v =
     (if \<not> truthy security then Inr (add_error SecurityRequired v)
      else
        bindE (py_contains ''auth_required'' security) (\<lambda>has_auth.
        let v = (if \<not> has_auth then add_error AuthRequiredUndeclared v else v) in
        bindE (py_contains ''secrets_handling'' security) (\<lambda>has_sh.
        bindE (if \<not> has_sh then Inr (add_error SecretsHandlingUndeclared v)
               else bindE (py_getitem security ''secrets_handling'') (\<lambda>sh.
                 Inr (if sh \<notin> set secrets_handling_values
                      then add_error (InvalidSecretsHandling sh) v else v))) (\<lambda>v.
        bindE (py_get security ''secrets_handling'' JNull) (\<lambda>sh.
        let v = (if sh = JStr ''runtime_injected'' then add_info CredentialAgnostic v
                 else add_warning ConsiderRuntimeInjected v) in
        bindE (py_contains ''minimum_role'' security) (\<lambda>has_role.
        let v = (if \<not> has_role then add_warning ConsiderMinimumRole v else v) in
        bindE (py_contains ''rate_limit'' security) (\<lambda>has_rate.
        Inr (if \<not> has_rate then add_warning ConsiderRateLimit v else v))))))))"

subsection \<open>\<^verbatim>\<open>_validate_steps\<close>\<close>

definition operations :: "json list" where
  "operations = [JStr ''query'', JStr ''mutation'', JStr ''workflow'', JStr ''custom'']"

text \<open>\<^verbatim>\<open>enumerate(xs)\<close>.\<close>

definition enumerate_from0 :: "'a list \<Rightarrow> (nat \<times> 'a) list" where
  "enumerate_from0 xs = zip [0..<length xs] xs"

text \<open>
  The body of the loop; the state is the validator and the set \<^verbatim>\<open>step_ids\<close>. The early
  \<^verbatim>\<open>continue\<close> is the first branch.
\<close>

definition validate_step ::
  "nat \<times> json \<Rightarrow> validator \<times> hkey set \<Rightarrow> (validator \<times> hkey set) res" where
  "validate_step istep st =
     (let step_num = fst istep + 1; step = snd istep; v = fst st; step_ids = snd st in
      bindE (py_contains ''id'' step) (\<lambda>has_id.
      if \<not> has_id then Inr (add_error (StepMissingId step_num) v, step_ids)
      else
        bindE (py_getitem step ''id'') (\<lambda>step_id.
        bindE (py_hash step_id) (\<lambda>k.
        let v = (if k \<in> step_ids then add_error (DuplicateStepId step_id) v else v);
            step_ids = insert k step_ids in
        bindE (re_match match_snake_case step_id) (\<lambda>ok.
        let sid = (case step_id of JStr n \<Rightarrow> n | _ \<Rightarrow> []);
            v = (if \<not> ok then add_error (StepIdFormat sid) v else v) in
        bindE (forM [''operation'', ''api_endpoint''] (\<lambda>field v.
                 bindE (py_contains field step) (\<lambda>present.
                 Inr (if \<not> present then add_error (StepMissingField sid field) v else v))) v) (\<lambda>v.
        bindE (py_get step ''operation'' JNull) (\<lambda>operation.
        let v = (if operation \<notin> set operations
                 then add_error (StepInvalidOperation sid operation) v else v) in
        bindE (py_contains ''error_handling'' step) (\<lambda>has_eh.
        let v = (if \<not> has_eh then add_warning (StepNoErrorHandling sid) v else v) in
        bindE (if operation = JStr ''mutation''
               then bindE (py_contains ''outputs'' step) (\<lambda>has_out.
                    Inr (if \<not> has_out then add_warning (MutationNoOutputs sid) v else v))
               else Inr v) (\<lambda>v.
        bindE (py_contains ''telemetry'' step) (\<lambda>has_tel.
        Inr (if \<not> has_tel then add_info (StepNoTelemetry sid) v else v, step_ids)))))))))))"

definition validate_steps :: "json \<Rightarrow> validator \<Rightarrow> validator res" where
  "validate_steps steps v =
     (if \<not> truthy steps then Inr (add_error NoSteps v)
      else
        bindE (py_iter steps) (\<lambda>xs.
        bindE (forM (enumerate_from0 xs) validate_step (v, {})) (\<lambda>st.
        Inr (fst st))))"

subsection \<open>\<^verbatim>\<open>_validate_dependencies\<close> and \<^verbatim>\<open>_has_circular_dependency\<close>\<close>

text \<open>
  The graph is the \<^verbatim>\<open>dict\<close> from a step id to that step's \<^verbatim>\<open>depends_on\<close> value, in
  insertion order; a repeated id keeps its place and takes the later value.
\<close>

type_synonym graph = "(hkey \<times> json) list"

definition graph_get :: "graph \<Rightarrow> hkey \<Rightarrow> json" where
  "graph_get g node = (case map_of g node of Some d \<Rightarrow> d | None \<Rightarrow> JArr [])"

text \<open>
  The nested function \<^verbatim>\<open>dfs\<close>; the sets \<^verbatim>\<open>visited\<close> and \<^verbatim>\<open>rec_stack\<close> that it shares
  with its caller are passed in and returned. \<open>dfs_neighbors\<close> is its \<^verbatim>\<open>for\<close> loop.
\<close>

function (sequential)
  dfs :: "graph \<Rightarrow> hkey \<Rightarrow> hkey set \<times> hkey set \<Rightarrow> (bool \<times> hkey set \<times> hkey set) res" and
  dfs_neighbors :: "graph \<Rightarrow> json list \<Rightarrow> hkey set \<times> hkey set
      \<Rightarrow> (bool \<times> hkey set \<times> hkey set) res"
where
  "dfs g node (visited, rec_stack) =
     bindE (py_iter (graph_get g node)) (\<lambda>neighbors.
     bindE (dfs_neighbors g neighbors (insert node visited, insert node rec_stack)) (\<lambda>r.
     if fst r then Inr r
     else Inr (False, fst (snd r), snd (snd r) - {node})))"
| "dfs_neighbors g [] st = Inr (False, st)"
| "dfs_neighbors g (neighbor # rest) (visited, rec_stack) =
     bindE (py_hash neighbor) (\<lambda>n.
     if n \<notin> visited
     then bindE (dfs g n (visited, rec_stack)) (\<lambda>r.
          if fst r then Inr (True, snd r) else dfs_neighbors g rest (snd r))
     else if n \<in> rec_stack then Inr (True, visited, rec_stack)
     else dfs_neighbors g rest (visited, rec_stack))"
  by pat_completeness auto


text \<open>
  The recursion ends because every call of \<open>dfs\<close> marks a node that was not visited, and
  the nodes come from a finite set: the ids of the graph and the hashable neighbours.
\<close>

definition hashes :: "json list \<Rightarrow> hkey set" where
  "hashes xs = {k. \<exists>x \<in> set xs. py_hash x = Inr k}"

definition graph_nodes :: "graph \<Rightarrow> hkey set" where
  "graph_nodes g = fst ` set g \<union>
     (\<Union>p \<in> set g. case py_iter (snd p) of Inr xs \<Rightarrow> hashes xs | Inl e \<Rightarrow> {})"

lemma finite_hashes [simp]: "finite (hashes xs)"
proof -
  have "hashes xs \<subseteq> (\<lambda>x. case py_hash x of Inr k \<Rightarrow> k | Inl e \<Rightarrow> HNone) ` set xs"
    by (force simp: hashes_def)
  then show ?thesis by (rule finite_subset) simp
qed

lemma finite_graph_nodes [simp]: "finite (graph_nodes g)"
  by (auto simp: graph_nodes_def split: sum.splits)

lemma hashes_Cons: "hashes (x # xs) = (case py_hash x of Inr k \<Rightarrow> {k} | Inl e \<Rightarrow> {}) \<union> hashes xs"
  by (auto simp: hashes_def split: sum.splits)

lemma hashes_graph_get:
  assumes "py_iter (graph_get g node) = Inr ns"
  shows "hashes ns \<subseteq> graph_nodes g"
proof (cases "map_of g node")
  case None
  with assms show ?thesis by (simp add: graph_get_def hashes_def)
next
  case (Some d)
  then have "(node, d) \<in> set g" by (rule map_of_SomeD)
  moreover from Some assms have "py_iter d = Inr ns" by (simp add: graph_get_def)
  ultimately show ?thesis by (force simp: graph_nodes_def)
qed

lemma dfs_visited_mono_dom:
  "dfs_dfs_neighbors_dom (Inl (g, node, st)) \<Longrightarrow> dfs g node st = Inr r \<Longrightarrow> fst st \<subseteq> fst (snd r)"
  "dfs_dfs_neighbors_dom (Inr (g, ns, st)) \<Longrightarrow> dfs_neighbors g ns st = Inr r' \<Longrightarrow> fst st \<subseteq> fst (snd r')"
proof (induct g node st and g ns st arbitrary: r and r' rule: dfs_dfs_neighbors.pinduct)
  case (1 g node visited rec_stack)
  from "1.prems" "1.hyps"(1) obtain ns r0 where
    ns: "py_iter (graph_get g node) = Inr ns" and
    r0: "dfs_neighbors g ns (insert node visited, insert node rec_stack) = Inr r0" and
    r: "r = (if fst r0 then r0 else (False, fst (snd r0), snd (snd r0) - {node}))"
    by (auto simp: dfs.psimps bindE_def split: sum.splits if_splits)
  from "1.hyps"(2) [OF ns r0] have "insert node visited \<subseteq> fst (snd r0)" by simp
  with r show ?case by (auto split: if_splits)
next
  case (2 g st)
  then show ?case by (auto simp: dfs_neighbors.psimps)
next
  case (3 g neighbor rest visited rec_stack)
  from "3.prems" "3.hyps"(1) obtain n where n: "py_hash neighbor = Inr n"
    by (auto simp: dfs_neighbors.psimps bindE_def split: sum.splits)
  show ?case
  proof (cases "n \<in> visited")
    case True
    with "3.prems" "3.hyps"(1) n "3.hyps"(4) [OF n] show ?thesis
      by (auto simp: dfs_neighbors.psimps split: if_splits)
  next
    case False
    with "3.prems" "3.hyps"(1) n obtain r0 where
      r0: "dfs g n (visited, rec_stack) = Inr r0"
      by (auto simp: dfs_neighbors.psimps bindE_def split: sum.splits)
    from "3.hyps"(2) [OF n False r0] have m: "visited \<subseteq> fst (snd r0)" by simp
    show ?thesis
    proof (cases "fst r0")
      case True
      with "3.prems" "3.hyps"(1) n False r0 m show ?thesis
        by (auto simp: dfs_neighbors.psimps)
    next
      case f: False
      with "3.prems" "3.hyps"(1) n False r0
      have "dfs_neighbors g rest (snd r0) = Inr r'"
        by (auto simp: dfs_neighbors.psimps)
      from "3.hyps"(3) [OF n False r0 f this] m show ?thesis by auto
    qed
  qed
qed

lemma lex3_le:
  "a \<le> a' \<Longrightarrow> c < c' \<Longrightarrow>
   ((a, b, c), (a', b, c')) \<in> less_than <*lex*> less_than <*lex*> less_than"
  by (auto simp: le_less)

termination dfs
proof (relation "inv_image (less_than <*lex*> less_than <*lex*> less_than)
    (\<lambda>x. case x of
        Inl a \<Rightarrow> (card (graph_nodes (fst a) - insert (fst (snd a)) (fst (snd (snd a)))), 1::nat, 0::nat)
      | Inr b \<Rightarrow> (card ((graph_nodes (fst b) \<union> hashes (fst (snd b))) - fst (snd (snd b))),
                  0, length (fst (snd b))))", goal_cases)
  case 1
  show ?case by (intro wf_inv_image wf_lex_prod wf_less_than)
next
  case (2 g node visited rec_stack ns)
  from hashes_graph_get [OF 2(1)]
  have "graph_nodes g \<union> hashes ns = graph_nodes g" by auto
  then show ?case by simp
next
  case (3 g neighbor rest visited rec_stack n)
  have "graph_nodes g - insert n visited
        \<subset> (graph_nodes g \<union> hashes (neighbor # rest)) - visited"
    using 3 by (auto simp: hashes_Cons)
  then have "card (graph_nodes g - insert n visited)
        < card ((graph_nodes g \<union> hashes (neighbor # rest)) - visited)"
    by (intro psubset_card_mono) simp_all
  then show ?case by simp
next
  case (4 g neighbor rest visited rec_stack n r)
  from dfs_visited_mono_dom(1) [OF 4(5) 4(3)] have "visited \<subseteq> fst (snd r)" by simp
  then have "(graph_nodes g \<union> hashes rest) - fst (snd r)
        \<subseteq> (graph_nodes g \<union> hashes (neighbor # rest)) - visited"
    by (auto simp: hashes_Cons)
  then have "card ((graph_nodes g \<union> hashes rest) - fst (snd r))
        \<le> card ((graph_nodes g \<union> hashes (neighbor # rest)) - visited)"
    by (intro card_mono) simp_all
  then show ?case by (auto simp: le_less)
next
  case (5 g neighbor rest visited rec_stack n)
  have "(graph_nodes g \<union> hashes rest) - visited
        \<subseteq> (graph_nodes g \<union> hashes (neighbor # rest)) - visited"
    by (auto simp: hashes_Cons)
  then have "card ((graph_nodes g \<union> hashes rest) - visited)
        \<le> card ((graph_nodes g \<union> hashes (neighbor # rest)) - visited)"
    by (intro card_mono) simp_all
  then show ?case by (auto simp: le_less)
qed

declare dfs.simps [simp del] dfs_neighbors.simps [simp del]

text \<open>The loop \<^verbatim>\<open>for node in graph\<close> of \<^verbatim>\<open>_has_circular_dependency\<close>.\<close>

fun dfs_all :: "graph \<Rightarrow> hkey list \<Rightarrow> hkey set \<times> hkey set \<Rightarrow> bool res" where
  "dfs_all g [] st = Inr False"
| "dfs_all g (node # rest) st =
     (if node \<notin> fst st
      then bindE (dfs g node st) (\<lambda>r.
           if fst r then Inr True else dfs_all g rest (snd r))
      else dfs_all g rest st)"

definition graph_entry :: "json \<Rightarrow> graph \<Rightarrow> graph res" where
  "graph_entry step g =
     bindE (py_contains ''id'' step) (\<lambda>has_id.
     if \<not> has_id then Inr g
     else
       bindE (py_getitem step ''id'') (\<lambda>step_id.
       bindE (py_get step ''depends_on'' (JArr [])) (\<lambda>depends_on.
       bindE (py_hash step_id) (\<lambda>k.
       Inr (AList.update k depends_on g)))))"

definition build_graph :: "json \<Rightarrow> graph res" where
  "build_graph steps = bindE (py_iter steps) (\<lambda>xs. forM xs graph_entry [])"

definition has_circular_dependency :: "json \<Rightarrow> bool res" where
  "has_circular_dependency steps =
     bindE (build_graph steps) (\<lambda>g. dfs_all g (map fst g) ({}, {}))"

text \<open>\<^verbatim>\<open>{step['id'] for step in steps if 'id' in step}\<close>.\<close>

definition collect_step_id :: "json \<Rightarrow> hkey set \<Rightarrow> hkey set res" where
  "collect_step_id step ids =
     bindE (py_contains ''id'' step) (\<lambda>has_id.
     if \<not> has_id then Inr ids
     else
       bindE (py_getitem step ''id'') (\<lambda>step_id.
       bindE (py_hash step_id) (\<lambda>k.
       Inr (insert k ids))))"

definition check_dependency :: "hkey set \<Rightarrow> json \<Rightarrow> json \<Rightarrow> validator \<Rightarrow> validator res" where
  "check_dependency step_ids step_id dep_id v =
     bindE (py_hash dep_id) (\<lambda>k.
     Inr (if k \<notin> step_ids then add_error (DependsOnUnknown step_id dep_id) v else v))"

definition check_depends_on :: "hkey set \<Rightarrow> json \<Rightarrow> validator \<Rightarrow> validator res" where
  "check_depends_on step_ids step v =
     bindE (py_get step ''id'' (JStr ''unknown'')) (\<lambda>step_id.
     bindE (py_get step ''depends_on'' (JArr [])) (\<lambda>depends_on.
     bindE (py_iter depends_on) (\<lambda>deps.
     forM deps (check_dependency step_ids step_id) v)))"

definition validate_dependencies :: "json \<Rightarrow> validator \<Rightarrow> validator res" where
  "validate_dependencies steps v =
     bindE (py_iter steps) (\<lambda>xs.
     bindE (forM xs collect_step_id {}) (\<lambda>step_ids.
     bindE (forM xs (check_depends_on step_ids) v) (\<lambda>v.
     bindE (has_circular_dependency steps) (\<lambda>cyclic.
     Inr (if cyclic then add_error CircularDependency v else v)))))"

subsection \<open>\<^verbatim>\<open>_validate_data_flow\<close>\<close>

text \<open>
  The references that the check reads in a step: the matches of the template pattern in
  the serialised \<^verbatim>\<open>inputs\<close>.
\<close>

definition step_refs :: "json \<Rightarrow> (string \<times> string) list res" where
  "step_refs step =
     bindE (py_get step ''inputs'' (JObj [])) (\<lambda>inputs.
     Inr (findall_refs (json_dumps inputs)))"

definition check_ref ::
  "(hkey \<rightharpoonup> string set) \<Rightarrow> json \<Rightarrow> string \<times> string \<Rightarrow> validator \<Rightarrow> validator res" where
  "check_ref available_outputs step_id ref v =
     (let ref_step = fst ref; ref_field = snd ref in
      Inr (case available_outputs (HStr ref_step) of
             None \<Rightarrow> add_error (UnknownStepRef step_id ref_step) v
           | Some declared \<Rightarrow>
               if ref_field \<notin> declared
               then add_warning (UndeclaredOutputRef step_id ref_field ref_step) v
               else v))"

text \<open>The body of the loop; the state is the validator and \<^verbatim>\<open>available_outputs\<close>.\<close>

definition data_flow_step ::
  "json \<Rightarrow> validator \<times> (hkey \<rightharpoonup> string set) \<Rightarrow> (validator \<times> (hkey \<rightharpoonup> string set)) res" where
  "data_flow_step step st =
     (let v = fst st; available_outputs = snd st in
      bindE (py_get step ''id'' (JStr ''unknown'')) (\<lambda>step_id.
      bindE (step_refs step) (\<lambda>refs.
      bindE (forM refs (check_ref available_outputs step_id) v) (\<lambda>v.
      bindE (py_contains ''outputs'' step) (\<lambda>has_outputs.
      if has_outputs
      then bindE (py_getitem step ''outputs'') (\<lambda>outputs.
           bindE (py_keys outputs) (\<lambda>keys.
           bindE (py_hash step_id) (\<lambda>k.
           Inr (v, available_outputs(k \<mapsto> set keys)))))
      else Inr (v, available_outputs))))))"

definition validate_data_flow :: "json \<Rightarrow> validator \<Rightarrow> validator res" where
  "validate_data_flow steps v =
     bindE (py_iter steps) (\<lambda>xs.
     bindE (forM xs data_flow_step (v, Map.empty)) (\<lambda>st.
     Inr (fst st)))"

subsection \<open>\<^verbatim>\<open>_audit_security\<close>\<close>

definition suspicious_patterns :: "((string \<Rightarrow> bool) \<times> string) list" where
  "suspicious_patterns =
     [(match_keyword ''password'', ''Possible hardcoded password''),
      (match_keyword ''token'', ''Possible hardcoded token''),
      (match_api_key, ''Possible hardcoded API key''),
      (match_keyword ''secret'', ''Possible hardcoded secret'')]"

definition audit_security :: "json \<Rightarrow> validator \<Rightarrow> validator res" where
  "audit_security workflow v =
     (let workflow_str = lower (json_dumps workflow) in
      bindE (forM suspicious_patterns (\<lambda>pm v.
               Inr (if re_search (fst pm) workflow_str
                    then add_error (HardcodedCredential (snd pm)) v else v)) v) (\<lambda>v.
      bindE (py_get workflow ''observability'' (JObj [])) (\<lambda>observability.
      bindE (py_get observability ''audit'' (JObj [])) (\<lambda>audit.
      bindE (py_get audit ''log_inputs'' JNull) (\<lambda>log_inputs.
      if truthy log_inputs
      then bindE (py_get workflow ''security'' (JObj [])) (\<lambda>security.
           bindE (py_get security ''pii_fields'' JNull) (\<lambda>pii.
           Inr (if \<not> truthy pii then add_warning AuditLogsNoPii v else v)))
      else Inr v)))))"

subsection \<open>\<^verbatim>\<open>_check_best_practices\<close>\<close>

definition check_best_practices :: "json \<Rightarrow> validator \<Rightarrow> validator res" where
  "check_best_practices workflow v =
     bindE (py_contains ''documentation'' workflow) (\<lambda>has_doc.
     bindE (if \<not> has_doc then Inr (add_warning NoDocumentation v)
            else bindE (py_getitem workflow ''documentation'') (\<lambda>doc.
                 bindE (py_contains ''semantic_gaps'' doc) (\<lambda>has_gaps.
                 bindE (if \<not> has_gaps then Inr True
                        else bindE (py_getitem doc ''semantic_gaps'') (\<lambda>gaps.
                             Inr (\<not> truthy gaps))) (\<lambda>missing.
                 Inr (if missing then add_info ConsiderSemanticGaps v else v))))) (\<lambda>v.
     bindE (py_contains ''observability'' workflow) (\<lambda>has_obs.
     let v = (if \<not> has_obs then add_warning NoObservability v else v) in
     bindE (py_contains ''validation'' workflow) (\<lambda>has_val.
     let v = (if \<not> has_val then add_warning NoValidationRules v else v) in
     bindE (py_get workflow ''execution_config'' (JObj [])) (\<lambda>exec_config.
     bindE (py_get exec_config ''dry_run_supported'' JNull) (\<lambda>dry.
     let v = (if \<not> truthy dry then add_info NoDryRun v else v) in
     bindE (py_get exec_config ''rollback_supported'' JNull) (\<lambda>rollback.
     Inr (if \<not> truthy rollback then add_info NoRollback v else v))))))))"

subsection \<open>\<^verbatim>\<open>validate\<close>\<close>

text \<open>
  The checks run on the validator object one after the other; the result is the object
  after the run and the returned \<^verbatim>\<open>len(self.errors) == 0\<close>.
\<close>

definition validate :: "json \<Rightarrow> validator \<Rightarrow> (validator \<times> bool) res" where
  "validate workflow v =
     bindE (validate_structure workflow v) (\<lambda>v.
     bindE (py_get workflow ''metadata'' (JObj [])) (\<lambda>metadata.
     bindE (validate_metadata metadata v) (\<lambda>v.
     bindE (py_get workflow ''inputs'' (JObj [])) (\<lambda>inputs.
     bindE (validate_inputs inputs v) (\<lambda>v.
     bindE (py_get workflow ''security'' (JObj [])) (\<lambda>security.
     bindE (validate_security security v) (\<lambda>v.
     bindE (py_get workflow ''steps'' (JArr [])) (\<lambda>steps.
     bindE (validate_steps steps v) (\<lambda>v.
     bindE (py_get workflow ''steps'' (JArr [])) (\<lambda>steps.
     bindE (validate_dependencies steps v) (\<lambda>v.
     bindE (py_get workflow ''steps'' (JArr [])) (\<lambda>steps.
     bindE (validate_data_flow steps v) (\<lambda>v.
     bindE (audit_security workflow v) (\<lambda>v.
     bindE (check_best_practices workflow v) (\<lambda>v.
     Inr (v, length (errors v) = 0))))))))))))))))"

section \<open>The dry-run executor\<close>

text \<open>
  The executor reads two things from outside the program: \<^verbatim>\<open>uuid.uuid4()\<close> and
  \<^verbatim>\<open>datetime.now()\<close>. A world gives the 32 hexadecimal digits of the n-th UUID drawn
  and the \<^verbatim>\<open>isoformat()\<close> of the n-th reading of the clock; the executor counts its calls.
  Console output is not modelled, except the line that reports an unsatisfied dependency,
  kept as an event. \<^verbatim>\<open>_resolve_inputs\<close> computes a value that is only printed: it changes
  no state and raises nothing, and is left out.
\<close>

record world =
  uuid4_hex :: "nat \<Rightarrow> string"
  now_iso :: "nat \<Rightarrow> string"

datatype event = DependencyNotSatisfied string

record executor =
  verbose :: bool
  execution_state :: "(string \<times> json) list"
  trace_id :: string
  simulated_outputs :: "(hkey \<times> (string \<times> json) list) list"
  uuid_calls :: nat
  now_calls :: nat
  faults :: "event list"

text \<open>\<^verbatim>\<open>str(uuid)\<close>: the digits in groups of 8, 4, 4, 4 and 12.\<close>

definition uuid_str :: "string \<Rightarrow> string" where
  "uuid_str h = take 8 h @ ''-'' @ take 4 (drop 8 h) @ ''-'' @ take 4 (drop 12 h) @ ''-''
                @ take 4 (drop 16 h) @ ''-'' @ drop 20 h"

definition DryRunExecutor :: "world \<Rightarrow> bool \<Rightarrow> executor" where
  "DryRunExecutor w verb =
     \<lparr>verbose = verb, execution_state = [], trace_id = uuid_str (uuid4_hex w 0),
      simulated_outputs = [], uuid_calls = 1, now_calls = 0, faults = []\<rparr>"

subsection \<open>\<^verbatim>\<open>_simulate_outputs\<close>\<close>

definition mock_value :: "world \<Rightarrow> string \<Rightarrow> executor \<Rightarrow> json \<times> executor" where
  "mock_value w key ex =
     (if str_contains ''id'' (lower key)
      then (JStr (''mock_'' @ key @ ''_'' @ take 8 (uuid4_hex w (uuid_calls ex))),
            ex\<lparr>uuid_calls := uuid_calls ex + 1\<rparr>)
      else if str_contains ''name'' (lower key)
      then (JStr (''Mock '' @ title key), ex)
      else if str_contains ''date'' (lower key) \<or> str_contains ''time'' (lower key)
      then (JStr (now_iso w (now_calls ex)), ex\<lparr>now_calls := now_calls ex + 1\<rparr>)
      else if str_contains ''count'' (lower key)
      then (JNum 42, ex)
      else (JStr (''<mock_'' @ key @ ''>''), ex))"

definition simulate_output ::
  "world \<Rightarrow> string \<times> json \<Rightarrow> (string \<times> json) list \<times> executor
     \<Rightarrow> ((string \<times> json) list \<times> executor) res" where
  "simulate_output w item st =
     (let r = mock_value w (fst item) (snd st) in
      Inr (AList.update (fst item) (fst r) (fst st), snd r))"

definition simulate_outputs ::
  "world \<Rightarrow> json \<Rightarrow> executor \<Rightarrow> ((string \<times> json) list \<times> executor) res" where
  "simulate_outputs w step ex =
     bindE (py_get step ''outputs'' (JObj [])) (\<lambda>outputs.
     bindE (py_items outputs) (\<lambda>items.
     forM items (simulate_output w) ([], ex)))"

subsection \<open>\<^verbatim>\<open>_simulate_step\<close>\<close>

definition record_outputs :: "world \<Rightarrow> json \<Rightarrow> json \<Rightarrow> executor \<Rightarrow> (executor \<times> bool) res" where
  "record_outputs w step step_id ex =
     bindE (simulate_outputs w step ex) (\<lambda>r.
     bindE (py_hash step_id) (\<lambda>k.
     Inr ((snd r)\<lparr>simulated_outputs := AList.update k (fst r) (simulated_outputs (snd r))\<rparr>,
          True)))"

definition simulate_step :: "world \<Rightarrow> json \<Rightarrow> executor \<Rightarrow> (executor \<times> bool) res" where
  "simulate_step w step ex =
     bindE (py_get step ''id'' (JStr ''unknown'')) (\<lambda>step_id.
     bindE (py_get step ''operation'' (JStr ''unknown'')) (\<lambda>operation.
     if operation = JStr ''query'' then record_outputs w step step_id ex
     else if operation = JStr ''mutation'' then record_outputs w step step_id ex
     else if operation = JStr ''workflow'' then Inr (ex, True)
     else Inr (ex, True)))"

subsection \<open>\<^verbatim>\<open>_execute_steps\<close>\<close>

text \<open>\<^verbatim>\<open>', '.join(c)\<close> raises unless every item of \<open>c\<close> is a string; the items are returned.\<close>

fun as_strings :: "json list \<Rightarrow> string list res" where
  "as_strings [] = Inr []"
| "as_strings (JStr s # xs) = bindE (as_strings xs) (\<lambda>r. Inr (s # r))"
| "as_strings (_ # xs) = Inl TypeError"

definition py_join_items :: "json \<Rightarrow> string list res" where
  "py_join_items c = bindE (py_iter c) as_strings"

text \<open>
  One iteration of the loop: the result is \<open>False\<close> where the source returns
  \<^verbatim>\<open>False\<close> from inside the loop. The first dependency without an entry in
  \<^verbatim>\<open>simulated_outputs\<close> ends the run.
\<close>

definition execute_step :: "world \<Rightarrow> nat \<times> json \<Rightarrow> executor \<Rightarrow> (executor \<times> bool) res" where
  "execute_step w istep ex =
     (let step = snd istep in
      bindE (py_get step ''id'' (JStr (''step_'' @ show_int (int (fst istep) + 1)))) (\<lambda>step_id.
      bindE (py_get step ''depends_on'' (JArr [])) (\<lambda>depends_on.
      bindE (if truthy depends_on
             then bindE (py_join_items depends_on) (\<lambda>deps.
                  Inr (find (\<lambda>dep. map_of (simulated_outputs ex) (HStr dep) = None) deps))
             else Inr None) (\<lambda>missing.
      case missing of
        Some dep \<Rightarrow> Inr (ex\<lparr>faults := faults ex @ [DependencyNotSatisfied dep]\<rparr>, False)
      | None \<Rightarrow> simulate_step w step ex))))"

fun steps_loop :: "world \<Rightarrow> (nat \<times> json) list \<Rightarrow> executor \<Rightarrow> (executor \<times> bool) res" where
  "steps_loop w [] ex = Inr (ex, True)"
| "steps_loop w (istep # rest) ex =
     bindE (execute_step w istep ex) (\<lambda>r.
     if snd r then steps_loop w rest (fst r) else Inr (fst r, False))"

definition execute_steps :: "world \<Rightarrow> json \<Rightarrow> executor \<Rightarrow> (executor \<times> bool) res" where
  "execute_steps w workflow ex =
     bindE (py_get workflow ''steps'' (JArr [])) (\<lambda>steps.
     bindE (py_len steps) (\<lambda>n.
     bindE (py_iter steps) (\<lambda>xs.
     steps_loop w (enumerate_from0 xs) ex)))"

subsection \<open>Conditions\<close>

definition simulate_condition :: "json \<Rightarrow> bool res" where
  "simulate_condition condition =
     bindE (py_get condition ''type'' (JStr ''unknown'')) (\<lambda>cond_type.
     bindE (py_get condition ''id'' (JStr ''unknown'')) (\<lambda>cond_id.
     bindE (py_contains ''check_auth'' cond_id) (\<lambda>auth.
     if auth \<or> cond_type = JStr ''security'' then Inr True
     else
       bindE (py_contains ''exists'' cond_id) (\<lambda>ex.
       bindE (if ex then Inr True else py_contains ''unique'' cond_id) (\<lambda>known.
       if known then Inr True else Inr True)))))"

definition check_pre_condition :: "json \<Rightarrow> bool \<Rightarrow> bool res" where
  "check_pre_condition condition all_passed =
     bindE (py_get condition ''id'' (JStr ''unknown'')) (\<lambda>cond_id.
     bindE (py_get condition ''critical'' (JBool True)) (\<lambda>critical.
     bindE (simulate_condition condition) (\<lambda>passed.
     Inr (if passed then all_passed else if truthy critical then False else all_passed))))"

definition check_pre_conditions :: "json \<Rightarrow> bool res" where
  "check_pre_conditions workflow =
     bindE (py_get workflow ''validation'' (JObj [])) (\<lambda>validation.
     bindE (py_get validation ''pre_conditions'' (JArr [])) (\<lambda>pre_conditions.
     if \<not> truthy pre_conditions then Inr True
     else
       bindE (py_len pre_conditions) (\<lambda>n.
       bindE (py_iter pre_conditions) (\<lambda>conditions.
       forM conditions check_pre_condition True))))"

definition check_post_condition :: "json \<Rightarrow> bool \<Rightarrow> bool res" where
  "check_post_condition condition all_passed =
     bindE (py_get condition ''id'' (JStr ''unknown'')) (\<lambda>cond_id. Inr all_passed)"

definition check_post_conditions :: "json \<Rightarrow> bool res" where
  "check_post_conditions workflow =
     bindE (py_get workflow ''validation'' (JObj [])) (\<lambda>validation.
     bindE (py_get validation ''post_conditions'' (JArr [])) (\<lambda>post_conditions.
     if \<not> truthy post_conditions then Inr True
     else
       bindE (py_len post_conditions) (\<lambda>n.
       bindE (py_iter post_conditions) (\<lambda>conditions.
       forM conditions check_post_condition True))))"

subsection \<open>\<^verbatim>\<open>execute\<close>\<close>

text \<open>
  The header printed first reads \<^verbatim>\<open>workflow['metadata']['workflow_name']\<close> and
  \<^verbatim>\<open>workflow['metadata']['platform']\<close> by subscript, then the clock.
\<close>

definition execute :: "world \<Rightarrow> json \<Rightarrow> executor \<Rightarrow> (executor \<times> bool) res" where
  "execute w workflow ex =
     bindE (py_getitem workflow ''metadata'') (\<lambda>metadata.
     bindE (py_getitem metadata ''workflow_name'') (\<lambda>workflow_name.
     bindE (py_getitem workflow ''metadata'') (\<lambda>metadata.
     bindE (py_getitem metadata ''platform'') (\<lambda>platform.
     let ex = ex\<lparr>now_calls := now_calls ex + 1\<rparr> in
     bindE (py_get workflow ''execution_config'' (JObj [])) (\<lambda>exec_config.
     bindE (py_get exec_config ''dry_run_supported'' JNull) (\<lambda>dry.
     bindE (check_pre_conditions workflow) (\<lambda>pre_ok.
     if \<not> pre_ok then Inr (ex, False)
     else
       bindE (execute_steps w workflow ex) (\<lambda>r.
       if \<not> snd r then Inr (fst r, False)
       else
         bindE (check_post_conditions workflow) (\<lambda>post_ok.
         if \<not> post_ok then Inr (fst r, False) else Inr (fst r, True))))))))))"

text \<open>A world and a valid workflow for the examples below.\<close>

definition example_world :: world where
  "example_world = \<lparr>uuid4_hex = (\<lambda>n. ''0123456789abcdef0123456789abcdef''),
                     now_iso = (\<lambda>n. ''2024-05-01T12:00:00.000000'')\<rparr>"

definition example_workflow :: json where
  "example_workflow = JObj [
     (''metadata'', JObj [(''workflow_name'', JStr ''my_flow''), (''workflow_id'', JStr ''wf-1''),
        (''platform'', JStr ''crm''), (''schema_version'', JStr ''1.0.0'')]),
     (''inputs'', JObj []),
     (''security'', JObj [(''auth_required'', JBool True),
        (''secrets_handling'', JStr ''runtime_injected'')]),
     (''steps'', JArr [
        JObj [(''id'', JStr ''a''), (''operation'', JStr ''query''),
              (''api_endpoint'', JStr ''/orders''),
              (''outputs'', JObj [(''order_id'', JStr ''$.id'')])]])]"

section \<open>Properties of the validator\<close>

subsection \<open>The result of \<^verbatim>\<open>validate\<close>\<close>

text \<open>
  C1. Whenever \<^verbatim>\<open>validate\<close> returns, it returns true if and only if the list of
  error findings of the validator is empty after the run; the warning and info findings
  play no part in the returned value. (A validator made by \<open>WorkflowValidator\<close> starts
  with empty lists, so its errors after the run are those of the run.)
\<close>

theorem validate_passes_iff_no_errors:
  assumes "validate workflow v = Inr (v', passed)"
  shows "passed \<longleftrightarrow> errors v' = []"
  using assms unfolding validate_def
  by (auto simp: bindE_def split: sum.splits)

text \<open>
  The example workflow draws eight warnings and four info findings and no error:
  \<^verbatim>\<open>validate\<close> returns true.
\<close>

lemma example_validate:
  "validate example_workflow (WorkflowValidator False) =
     Inr (\<lparr>strict_mode = False, errors = [],
          warnings = [ConsiderIdempotent, NoInputsDefined, ConsiderMinimumRole, ConsiderRateLimit,
             StepNoErrorHandling ''a'',
             NoDocumentation, NoObservability, NoValidationRules],
          info = [CredentialAgnostic, StepNoTelemetry ''a'',
             NoDryRun, NoRollback]\<rparr>, True)"
  by code_simp

theorem validate_passes_iff_no_errors_witness:
  "validate example_workflow (WorkflowValidator False) =
     Inr (\<lparr>strict_mode = False, errors = [],
          warnings = [ConsiderIdempotent, NoInputsDefined, ConsiderMinimumRole, ConsiderRateLimit,
             StepNoErrorHandling ''a'',
             NoDocumentation, NoObservability, NoValidationRules],
          info = [CredentialAgnostic, StepNoTelemetry ''a'',
             NoDryRun, NoRollback]\<rparr>, True)
   \<and> (True \<longleftrightarrow>
        errors \<lparr>strict_mode = False, errors = [],
          warnings = [ConsiderIdempotent, NoInputsDefined, ConsiderMinimumRole, ConsiderRateLimit,
             StepNoErrorHandling ''a'',
             NoDocumentation, NoObservability, NoValidationRules],
          info = [CredentialAgnostic, StepNoTelemetry ''a'',
             NoDryRun, NoRollback]\<rparr> = [])"
  by (rule conjI [OF example_validate validate_passes_iff_no_errors [OF example_validate]])

subsection \<open>The security configuration\<close>

lemma validate_security_obj:
  assumes "kv \<noteq> []"
  shows "validate_security (JObj kv) v = Inr (v\<lparr>
      errors := errors v
        @ (if map_of kv ''auth_required'' = None then [AuthRequiredUndeclared] else [])
        @ (case map_of kv ''secrets_handling'' of
             None \<Rightarrow> [SecretsHandlingUndeclared]
           | Some sh \<Rightarrow> if sh \<notin> set secrets_handling_values
                        then [InvalidSecretsHandling sh] else []),
      warnings := warnings v
        @ (if map_of kv ''secrets_handling'' = Some (JStr ''runtime_injected'') then []
           else [ConsiderRuntimeInjected])
        @ (if map_of kv ''minimum_role'' = None then [ConsiderMinimumRole] else [])
        @ (if map_of kv ''rate_limit'' = None then [ConsiderRateLimit] else []),
      info := info v
        @ (if map_of kv ''secrets_handling'' = Some (JStr ''runtime_injected'')
           then [CredentialAgnostic] else [])\<rparr>)"
  using assms
  by (cases "map_of kv ''secrets_handling''")
     (simp_all add: validate_security_def add_error_def add_warning_def add_info_def Let_def)

text \<open>
  C8, as the code has it. For a non-empty security section, the check appends the warning
  that suggests \<^verbatim>\<open>runtime_injected\<close> exactly when \<^verbatim>\<open>secrets_handling\<close> is not
  \<^verbatim>\<open>'runtime_injected'\<close>: for \<^verbatim>\<open>vault\<close> and \<^verbatim>\<open>env_var\<close>, and also when the key is absent
  or its value is invalid. With \<^verbatim>\<open>'runtime_injected'\<close> it appends the positive info
  finding and not that warning. A present value outside the three allowed ones draws the
  error that cites the value, and no other value does.
\<close>

theorem validate_security_secrets_handling:
  assumes "kv \<noteq> []"
  shows "\<exists>es ws ns.
      validate_security (JObj kv) v
        = Inr (v\<lparr>errors := errors v @ es, warnings := warnings v @ ws, info := info v @ ns\<rparr>)
    \<and> count_list ws ConsiderRuntimeInjected
        = (if map_of kv ''secrets_handling'' = Some (JStr ''runtime_injected'') then 0 else 1)
    \<and> count_list ns CredentialAgnostic
        = (if map_of kv ''secrets_handling'' = Some (JStr ''runtime_injected'') then 1 else 0)
    \<and> (\<forall>x. InvalidSecretsHandling x \<in> set es \<longleftrightarrow>
           map_of kv ''secrets_handling'' = Some x \<and> x \<notin> set secrets_handling_values)"
proof (intro exI conjI)
  show "validate_security (JObj kv) v = Inr (v\<lparr>
      errors := errors v
        @ ((if map_of kv ''auth_required'' = None then [AuthRequiredUndeclared] else [])
        @ (case map_of kv ''secrets_handling'' of
             None \<Rightarrow> [SecretsHandlingUndeclared]
           | Some sh \<Rightarrow> if sh \<notin> set secrets_handling_values
                        then [InvalidSecretsHandling sh] else [])),
      warnings := warnings v
        @ ((if map_of kv ''secrets_handling'' = Some (JStr ''runtime_injected'') then []
           else [ConsiderRuntimeInjected])
        @ (if map_of kv ''minimum_role'' = None then [ConsiderMinimumRole] else [])
        @ (if map_of kv ''rate_limit'' = None then [ConsiderRateLimit] else [])),
      info := info v
        @ (if map_of kv ''secrets_handling'' = Some (JStr ''runtime_injected'')
           then [CredentialAgnostic] else [])\<rparr>)"
    using validate_security_obj [OF assms, of v] by simp
qed (auto simp: secrets_handling_values_def split: option.splits)

theorem validate_security_secrets_handling_witness:
  "[(''secrets_handling'', JStr ''vault'')] \<noteq> []
   \<and> (\<exists>es ws ns.
      validate_security (JObj [(''secrets_handling'', JStr ''vault'')]) (WorkflowValidator False)
        = Inr ((WorkflowValidator False)\<lparr>errors := errors (WorkflowValidator False) @ es,
             warnings := warnings (WorkflowValidator False) @ ws,
             info := info (WorkflowValidator False) @ ns\<rparr>)
    \<and> count_list ws ConsiderRuntimeInjected
        = (if map_of [(''secrets_handling'', JStr ''vault'')] ''secrets_handling''
              = Some (JStr ''runtime_injected'') then 0 else 1)
    \<and> count_list ns CredentialAgnostic
        = (if map_of [(''secrets_handling'', JStr ''vault'')] ''secrets_handling''
              = Some (JStr ''runtime_injected'') then 1 else 0)
    \<and> (\<forall>x. InvalidSecretsHandling x \<in> set es \<longleftrightarrow>
           map_of [(''secrets_handling'', JStr ''vault'')] ''secrets_handling'' = Some x
           \<and> x \<notin> set secrets_handling_values))"
proof -
  have k: "[(''secrets_handling'', JStr ''vault'')] \<noteq> []" by simp
  show ?thesis by (rule conjI [OF k validate_security_secrets_handling [OF k]])
qed

text \<open>
  With the invalid value \<^verbatim>\<open>'plaintext'\<close> the check reports the error that cites the
  value and the warning that suggests \<^verbatim>\<open>runtime_injected\<close> as well.
\<close>

theorem validate_security_plaintext:
  "validate_security
     (JObj [(''auth_required'', JBool True), (''secrets_handling'', JStr ''plaintext'')])
     (WorkflowValidator False)
   = Inr \<lparr>strict_mode = False,
          errors = [InvalidSecretsHandling (JStr ''plaintext'')],
          warnings = [ConsiderRuntimeInjected, ConsiderMinimumRole, ConsiderRateLimit],
          info = []\<rparr>
   \<and> JStr ''plaintext'' \<notin> set secrets_handling_values"
  by (simp add: validate_security_def WorkflowValidator_def secrets_handling_values_def
      add_error_def add_warning_def add_info_def)

subsection \<open>The strict flag\<close>

text \<open>Changing the flag of the validator commutes with every check.\<close>

definition set_strict :: "bool \<Rightarrow> validator \<Rightarrow> validator" where
  "set_strict s v = v\<lparr>strict_mode := s\<rparr>"

definition lift :: "('a \<Rightarrow> 'a) \<Rightarrow> 'a res \<Rightarrow> 'a res" where
  "lift t r = (case r of Inl e \<Rightarrow> Inl e | Inr x \<Rightarrow> Inr (t x))"

lemma lift_simps:
  "lift t (Inl e) = Inl e"
  "lift t (Inr x) = Inr (t x)"
  "lift t (bindE m f) = bindE m (\<lambda>x. lift t (f x))"
  "lift t (if c then a else b) = (if c then lift t a else lift t b)"
  "bindE (lift t' m') f' = bindE m' (\<lambda>x. f' (t' x))"
  by (auto simp: lift_def bindE_def split: sum.splits)

lemma forM_lift:
  assumes "\<And>x st. body x (t st) = lift t (body x st)"
  shows "forM xs body (t st) = lift t (forM xs body st)"
proof (induction xs arbitrary: st)
  case Nil
  show ?case by (simp add: lift_simps)
next
  case (Cons x xs)
  show ?case
    by (cases "body x st") (simp_all add: assms lift_simps Cons.IH)
qed

lemma set_strict_add:
  "add_error m (set_strict s v) = set_strict s (add_error m v)"
  "add_warning m (set_strict s v) = set_strict s (add_warning m v)"
  "add_info m (set_strict s v) = set_strict s (add_info m v)"
  "(if c then set_strict s v1 else set_strict s v2) = set_strict s (if c then v1 else v2)"
  by (simp_all add: set_strict_def add_error_def add_warning_def add_info_def)

lemma set_strict_findings [simp]:
  "errors (set_strict s v) = errors v"
  "warnings (set_strict s v) = warnings v"
  "info (set_strict s v) = info v"
  by (simp_all add: set_strict_def)

lemma forM_strict:
  assumes "\<And>x v. body x (set_strict s v) = lift (set_strict s) (body x v)"
  shows "forM xs body (set_strict s v) = lift (set_strict s) (forM xs body v)"
  using assms by (rule forM_lift)

lemma lift_out:
  "Inr (set_strict s v) = lift (set_strict s) (Inr v)"
  "bindE m (\<lambda>x. lift t (f x)) = lift t (bindE m f)"
  "(if c then lift t a else lift t b) = lift t (if c then a else b)"
  "bindE (lift t' m') f' = bindE m' (\<lambda>x. f' (t' x))"
  by (auto simp: lift_def bindE_def split: sum.splits)

lemmas strict_simps = lift_out forM_strict set_strict_add Let_def

lemma validate_structure_strict:
  "validate_structure w (set_strict s v) = lift (set_strict s) (validate_structure w v)"
  by (simp add: validate_structure_def strict_simps cong: if_cong del: forM.simps)

lemma validate_metadata_strict:
  "validate_metadata w (set_strict s v) = lift (set_strict s) (validate_metadata w v)"
  by (simp add: validate_metadata_def strict_simps cong: if_cong del: forM.simps)

lemma validate_input_param_strict:
  "validate_input_param p (set_strict s v) = lift (set_strict s) (validate_input_param p v)"
  by (simp add: validate_input_param_def strict_simps cong: if_cong del: forM.simps)

lemma validate_inputs_strict:
  "validate_inputs w (set_strict s v) = lift (set_strict s) (validate_inputs w v)"
  by (simp add: validate_inputs_def strict_simps validate_input_param_strict cong: if_cong del: forM.simps)

lemma validate_security_strict:
  "validate_security w (set_strict s v) = lift (set_strict s) (validate_security w v)"
  by (simp add: validate_security_def strict_simps cong: if_cong del: forM.simps)

lemma audit_security_strict:
  "audit_security w (set_strict s v) = lift (set_strict s) (audit_security w v)"
  by (simp add: audit_security_def strict_simps cong: if_cong del: forM.simps)

lemma check_best_practices_strict:
  "check_best_practices w (set_strict s v) = lift (set_strict s) (check_best_practices w v)"
  by (simp add: check_best_practices_def strict_simps cong: if_cong del: forM.simps)

lemma check_dependency_strict:
  "check_dependency ids sid d (set_strict s v) = lift (set_strict s) (check_dependency ids sid d v)"
  by (simp add: check_dependency_def strict_simps cong: if_cong del: forM.simps)

lemma check_depends_on_strict:
  "check_depends_on ids x (set_strict s v) = lift (set_strict s) (check_depends_on ids x v)"
  by (simp add: check_depends_on_def strict_simps check_dependency_strict cong: if_cong del: forM.simps)

lemma validate_dependencies_strict:
  "validate_dependencies w (set_strict s v) = lift (set_strict s) (validate_dependencies w v)"
  by (simp add: validate_dependencies_def strict_simps check_depends_on_strict cong: if_cong del: forM.simps)

lemma lift_out_pair:
  "Inr (set_strict s v, y) = lift (apfst (set_strict s)) (Inr (v, y))"
  by (simp add: lift_def)

lemma forM_strict_pair:
  assumes "\<And>x v y. body x (set_strict s v, y) = lift (apfst (set_strict s)) (body x (v, y))"
  shows "forM xs body (set_strict s v, y) = lift (apfst (set_strict s)) (forM xs body (v, y))"
proof -
  have "forM xs body (apfst (set_strict s) (v, y))
      = lift (apfst (set_strict s)) (forM xs body (v, y))"
    by (rule forM_lift) (use assms in auto)
  then show ?thesis by simp
qed

lemmas strict_pair_simps = lift_out_pair forM_strict_pair strict_simps

lemma validate_step_strict:
  "validate_step i (set_strict s v, ids) = lift (apfst (set_strict s)) (validate_step i (v, ids))"
  by (simp add: validate_step_def strict_pair_simps cong: if_cong del: forM.simps)

lemma validate_steps_strict:
  "validate_steps w (set_strict s v) = lift (set_strict s) (validate_steps w v)"
  by (simp add: validate_steps_def strict_pair_simps validate_step_strict cong: if_cong del: forM.simps)

lemma check_ref_strict:
  "check_ref av sid r (set_strict s v) = lift (set_strict s) (check_ref av sid r v)"
  by (simp add: check_ref_def strict_simps split: option.splits cong: if_cong del: forM.simps)

lemma data_flow_step_strict:
  "data_flow_step x (set_strict s v, av) = lift (apfst (set_strict s)) (data_flow_step x (v, av))"
  by (simp add: data_flow_step_def strict_pair_simps check_ref_strict cong: if_cong del: forM.simps)

lemma validate_data_flow_strict:
  "validate_data_flow w (set_strict s v) = lift (set_strict s) (validate_data_flow w v)"
  by (simp add: validate_data_flow_def strict_pair_simps data_flow_step_strict cong: if_cong del: forM.simps)

lemma validate_strict:
  "validate w (set_strict s v) = lift (apfst (set_strict s)) (validate w v)"
  by (simp add: validate_def strict_pair_simps validate_structure_strict validate_metadata_strict
      validate_inputs_strict validate_security_strict validate_steps_strict
      validate_dependencies_strict validate_data_flow_strict audit_security_strict
      check_best_practices_strict cong: if_cong del: forM.simps)

text \<open>What a caller sees of a run: the exception, or the three lists and the returned value.\<close>

definition outcome :: "(validator \<times> bool) res \<Rightarrow> (msg list \<times> msg list \<times> msg list \<times> bool) res" where
  "outcome r = (case r of Inl e \<Rightarrow> Inl e
     | Inr p \<Rightarrow> Inr (errors (fst p), warnings (fst p), info (fst p), snd p))"

text \<open>
  C9. For every workflow, a validator made with \<^verbatim>\<open>strict_mode=True\<close> and one made with
  \<^verbatim>\<open>strict_mode=False\<close> end with the same error, warning and info lists and return the
  same value from \<^verbatim>\<open>validate\<close> (or raise the same exception).
\<close>

theorem strict_mode_changes_nothing:
  "outcome (validate workflow (WorkflowValidator True))
     = outcome (validate workflow (WorkflowValidator False))"
proof -
  have "WorkflowValidator True = set_strict True (WorkflowValidator False)"
    by (simp add: WorkflowValidator_def set_strict_def)
  then show ?thesis
    by (cases "validate workflow (WorkflowValidator False)")
       (simp_all add: validate_strict lift_def outcome_def)
qed

subsection \<open>References to outputs\<close>

text \<open>
  The key of a step in \<^verbatim>\<open>available_outputs\<close> (and in the executor's
  \<^verbatim>\<open>simulated_outputs\<close>): the hash of \<^verbatim>\<open>step.get('id', 'unknown')\<close>.
\<close>

definition step_key :: "json \<Rightarrow> hkey res" where
  "step_key step = bindE (py_get step ''id'' (JStr ''unknown'')) py_hash"

text \<open>The output field names that a step declares: the keys of its \<^verbatim>\<open>outputs\<close> object.\<close>

definition declared_fields :: "json \<Rightarrow> string set" where
  "declared_fields step =
     (case bindE (py_getitem step ''outputs'') py_keys of Inr keys \<Rightarrow> set keys | Inl e \<Rightarrow> {})"

text \<open>The findings of one step's references, given what is available when it is scanned.\<close>

definition ref_errors :: "(hkey \<rightharpoonup> string set) \<Rightarrow> json \<Rightarrow> (string \<times> string) list \<Rightarrow> msg list" where
  "ref_errors av sid refs =
     map (\<lambda>r. UnknownStepRef sid (fst r)) (filter (\<lambda>r. av (HStr (fst r)) = None) refs)"

definition ref_warnings :: "(hkey \<rightharpoonup> string set) \<Rightarrow> json \<Rightarrow> (string \<times> string) list \<Rightarrow> msg list" where
  "ref_warnings av sid refs =
     map (\<lambda>r. UndeclaredOutputRef sid (snd r) (fst r))
       (filter (\<lambda>r. case av (HStr (fst r)) of None \<Rightarrow> False | Some d \<Rightarrow> snd r \<notin> d) refs)"

lemma ref_findings_Cons:
  "ref_errors av sid (r # refs) = ref_errors av sid [r] @ ref_errors av sid refs"
  "ref_warnings av sid (r # refs) = ref_warnings av sid [r] @ ref_warnings av sid refs"
  by (simp_all add: ref_errors_def ref_warnings_def)

lemma check_ref_result:
  "check_ref av sid r v
     = Inr (v\<lparr>errors := errors v @ ref_errors av sid [r],
             warnings := warnings v @ ref_warnings av sid [r]\<rparr>)"
  by (cases "av (HStr (fst r))")
     (simp_all add: check_ref_def Let_def ref_errors_def ref_warnings_def
        add_error_def add_warning_def)

lemma forM_check_ref:
  "forM refs (check_ref av sid) v
     = Inr (v\<lparr>errors := errors v @ ref_errors av sid refs,
             warnings := warnings v @ ref_warnings av sid refs\<rparr>)"
proof (induction refs arbitrary: v)
  case Nil
  show ?case by (simp add: ref_errors_def ref_warnings_def)
next
  case (Cons r refs)
  let ?v = "v\<lparr>errors := errors v @ ref_errors av sid [r],
              warnings := warnings v @ ref_warnings av sid [r]\<rparr>"
  have "forM (r # refs) (check_ref av sid) v
      = bindE (check_ref av sid r v) (forM refs (check_ref av sid))"
    by (rule forM.simps(2))
  also have "\<dots> = forM refs (check_ref av sid) ?v"
    by (subst check_ref_result) (rule bindE_simps(2))
  also have "\<dots> = Inr (?v\<lparr>errors := errors ?v @ ref_errors av sid refs,
             warnings := warnings ?v @ ref_warnings av sid refs\<rparr>)"
    by (rule Cons.IH)
  finally show ?case
    by (simp add: ref_findings_Cons [of av sid r refs])
qed

lemma data_flow_step_result:
  assumes "data_flow_step step (v, av) = Inr (v', av')"
  shows "\<exists>sid refs. py_get step ''id'' (JStr ''unknown'') = Inr sid \<and> step_refs step = Inr refs
     \<and> v' = v\<lparr>errors := errors v @ ref_errors av sid refs,
               warnings := warnings v @ ref_warnings av sid refs\<rparr>
     \<and> (if py_contains ''outputs'' step = Inr True
         then \<exists>k. step_key step = Inr k \<and> av' = av(k \<mapsto> declared_fields step)
         else av' = av)"
proof -
  from assms obtain sid refs has_outputs where
    sid: "py_get step ''id'' (JStr ''unknown'') = Inr sid" and
    refs: "step_refs step = Inr refs" and
    has: "py_contains ''outputs'' step = Inr has_outputs" and
    r: "(if has_outputs
         then bindE (py_getitem step ''outputs'') (\<lambda>outputs.
              bindE (py_keys outputs) (\<lambda>keys.
              bindE (py_hash sid) (\<lambda>k.
              Inr (v\<lparr>errors := errors v @ ref_errors av sid refs,
                     warnings := warnings v @ ref_warnings av sid refs\<rparr>,
                   av(k \<mapsto> set keys)))))
         else Inr (v\<lparr>errors := errors v @ ref_errors av sid refs,
                     warnings := warnings v @ ref_warnings av sid refs\<rparr>, av))
        = Inr (v', av')"
    by (cases "py_get step ''id'' (JStr ''unknown'')"; cases "step_refs step";
        cases "py_contains ''outputs'' step")
       (auto simp: data_flow_step_def Let_def forM_check_ref)
  show ?thesis
  proof (cases has_outputs)
    case True
    with r obtain outputs keys k where
      "py_getitem step ''outputs'' = Inr outputs" "py_keys outputs = Inr keys"
      "py_hash sid = Inr k"
      "v' = v\<lparr>errors := errors v @ ref_errors av sid refs,
                warnings := warnings v @ ref_warnings av sid refs\<rparr>"
      "av' = av(k \<mapsto> set keys)"
      by (auto simp: bindE_def split: sum.splits)
    with sid refs has True show ?thesis
      by (auto simp: step_key_def declared_fields_def)
  next
    case False
    with r sid refs has show ?thesis by auto
  qed
qed

lemma forM_append:
  "forM (xs @ ys) body s = bindE (forM xs body s) (forM ys body)"
proof (induction xs arbitrary: s)
  case Nil
  show ?case by simp
next
  case (Cons x xs)
  show ?case by (cases "body x s") (simp_all add: Cons.IH)
qed

lemma forM_data_flow_findings:
  assumes "forM steps data_flow_step (v, av) = Inr (v', av')"
  shows "\<exists>es ws. errors v' = errors v @ es \<and> warnings v' = warnings v @ ws"
  using assms
proof (induction steps arbitrary: v av)
  case Nil
  then show ?case by simp
next
  case (Cons step steps)
  from Cons.prems obtain v1 av1 where
    s: "data_flow_step step (v, av) = Inr (v1, av1)" and
    l: "forM steps data_flow_step (v1, av1) = Inr (v', av')"
    by (cases "data_flow_step step (v, av)") auto
  from data_flow_step_result [OF s] obtain es1 ws1 where
    "errors v1 = errors v @ es1" "warnings v1 = warnings v @ ws1"
    by auto
  with Cons.IH [OF l] show ?case by auto
qed

text \<open>
  What is available after the steps \<open>pre\<close> have been scanned: an entry comes from one of
  them that has an \<^verbatim>\<open>outputs\<close> key, and every one of them that has the key left an entry.
\<close>

lemma forM_data_flow_available:
  assumes "forM pre data_flow_step (v, Map.empty) = Inr (v', av)"
  shows "(\<forall>k d. av k = Some d \<longrightarrow>
            (\<exists>s \<in> set pre. step_key s = Inr k \<and> py_contains ''outputs'' s = Inr True
               \<and> d = declared_fields s))
       \<and> (\<forall>s \<in> set pre. \<forall>k. step_key s = Inr k \<and> py_contains ''outputs'' s = Inr True
            \<longrightarrow> av k \<noteq> None)"
  using assms
proof (induction pre arbitrary: v' av rule: rev_induct)
  case Nil
  then show ?case by auto
next
  case (snoc step pre)
  from snoc.prems obtain v1 av1 where
    l: "forM pre data_flow_step (v, Map.empty) = Inr (v1, av1)" and
    s: "data_flow_step step (v1, av1) = Inr (v', av)"
    by (cases "forM pre data_flow_step (v, Map.empty)") (auto simp: forM_append bindE_def split: sum.splits)
  note ih = snoc.IH [OF l]
  from data_flow_step_result [OF s] have
    av: "if py_contains ''outputs'' step = Inr True
         then \<exists>k. step_key step = Inr k \<and> av = av1(k \<mapsto> declared_fields step)
         else av = av1"
    by auto
  show ?case
  proof (cases "py_contains ''outputs'' step = Inr True")
    case True
    with av obtain k where k: "step_key step = Inr k" "av = av1(k \<mapsto> declared_fields step)"
      by auto
    show ?thesis
    proof (intro conjI allI impI ballI)
      fix k' d assume "av k' = Some d"
      with k ih True show "\<exists>s \<in> set (pre @ [step]). step_key s = Inr k'
          \<and> py_contains ''outputs'' s = Inr True \<and> d = declared_fields s"
        by (cases "k' = k") auto
    next
      fix s k' assume "s \<in> set (pre @ [step])"
        "step_key s = Inr k' \<and> py_contains ''outputs'' s = Inr True"
      with k ih show "av k' \<noteq> None" by (cases "k' = k") auto
    qed
  next
    case False
    with av have "av = av1" by simp
    with ih False show ?thesis by auto
  qed
qed

lemma step_key_str:
  "step_key s = Inr (HStr X) \<longleftrightarrow> py_get s ''id'' (JStr ''unknown'') = Inr (JStr X)"
proof
  assume "step_key s = Inr (HStr X)"
  then obtain sid where sid: "py_get s ''id'' (JStr ''unknown'') = Inr sid" "py_hash sid = Inr (HStr X)"
    by (auto simp: step_key_def bindE_def split: sum.splits)
  from sid(2) have "sid = JStr X" by (cases sid) (auto split: if_splits)
  with sid(1) show "py_get s ''id'' (JStr ''unknown'') = Inr (JStr X)" by simp
next
  assume "py_get s ''id'' (JStr ''unknown'') = Inr (JStr X)"
  then show "step_key s = Inr (HStr X)" by (simp add: step_key_def)
qed

lemma validate_data_flow_split:
  assumes steps: "py_iter steps = Inr (pre @ S # post)"
      and run: "validate_data_flow steps v = Inr v'"
  shows "\<exists>v1 av v2 av2 es ws. forM pre data_flow_step (v, Map.empty) = Inr (v1, av)
     \<and> data_flow_step S (v1, av) = Inr (v2, av2)
     \<and> errors v' = errors v2 @ es \<and> warnings v' = warnings v2 @ ws"
proof -
  from run steps obtain st where
    st: "forM (pre @ S # post) data_flow_step (v, Map.empty) = Inr st" and v': "v' = fst st"
    by (auto simp: validate_data_flow_def bindE_def split: sum.splits)
  from st obtain v1 av where
    l1: "forM pre data_flow_step (v, Map.empty) = Inr (v1, av)" and
    r1: "forM (S # post) data_flow_step (v1, av) = Inr st"
    by (cases "forM pre data_flow_step (v, Map.empty)") (auto simp: forM_append)
  from r1 obtain v2 av2 where
    s: "data_flow_step S (v1, av) = Inr (v2, av2)" and
    l2: "forM post data_flow_step (v2, av2) = Inr st"
    by (cases "data_flow_step S (v1, av)") auto
  from l2 have "forM post data_flow_step (v2, av2) = Inr (fst st, snd st)" by simp
  from forM_data_flow_findings [OF this] v' l1 s show ?thesis by auto
qed

text \<open>
  C7. Let \<open>S\<close> be a step of the list, scanned without an exception together with the rest.
  A template reference of \<open>S\<close> is a match \<open>(X, Y)\<close> of the pattern in its serialised
  inputs. If a step declared before \<open>S\<close> carries the id \<open>X\<close> and has an \<^verbatim>\<open>outputs\<close> key,
  and \<open>Y\<close> is not among the output field names declared under the id \<open>X\<close> before \<open>S\<close>,
  then the iteration of \<open>S\<close> appends the warning that names \<open>S\<close>, \<open>Y\<close> and \<open>X\<close> and does
  not append the unknown-step error for \<open>S\<close> and \<open>X\<close>; the warning stays in the result.
\<close>

theorem data_flow_undeclared_field_warning:
  assumes steps: "py_iter steps = Inr (pre @ S # post)"
      and run: "validate_data_flow steps v = Inr v'"
      and x: "X_step \<in> set pre" "py_get X_step ''id'' (JStr ''unknown'') = Inr (JStr X)"
             "py_contains ''outputs'' X_step = Inr True"
      and undeclared: "\<forall>s \<in> set pre. py_get s ''id'' (JStr ''unknown'') = Inr (JStr X)
             \<longrightarrow> Y \<notin> declared_fields s"
      and sid: "py_get S ''id'' (JStr ''unknown'') = Inr sid"
      and ref: "step_refs S = Inr refs" "(X, Y) \<in> set refs"
  shows "\<exists>v1 av v2 av2 es ws ws'.
       forM pre data_flow_step (v, Map.empty) = Inr (v1, av)
     \<and> data_flow_step S (v1, av) = Inr (v2, av2)
     \<and> errors v2 = errors v1 @ es \<and> warnings v2 = warnings v1 @ ws
     \<and> UndeclaredOutputRef sid Y X \<in> set ws
     \<and> UnknownStepRef sid X \<notin> set es
     \<and> warnings v' = warnings v2 @ ws'"
proof -
  from validate_data_flow_split [OF steps run] obtain v1 av v2 av2 es' ws' where
    l: "forM pre data_flow_step (v, Map.empty) = Inr (v1, av)" and
    s: "data_flow_step S (v1, av) = Inr (v2, av2)" and
    w: "warnings v' = warnings v2 @ ws'"
    by blast
  from forM_data_flow_available [OF l] have
    a1: "\<And>k d. av k = Some d \<Longrightarrow> \<exists>s \<in> set pre. step_key s = Inr k
           \<and> py_contains ''outputs'' s = Inr True \<and> d = declared_fields s" and
    a2: "\<And>s k. s \<in> set pre \<Longrightarrow> step_key s = Inr k
           \<Longrightarrow> py_contains ''outputs'' s = Inr True \<Longrightarrow> av k \<noteq> None"
    by blast+
  from x(2) have "step_key X_step = Inr (HStr X)" by (simp add: step_key_str)
  from a2 [OF x(1) this x(3)] obtain d where d: "av (HStr X) = Some d" by auto
  from a1 [OF d] obtain s where "s \<in> set pre" "step_key s = Inr (HStr X)" "d = declared_fields s"
    by blast
  with undeclared have y: "Y \<notin> d" by (auto simp: step_key_str)
  from data_flow_step_result [OF s] sid ref(1) have
    v2: "v2 = v1\<lparr>errors := errors v1 @ ref_errors av sid refs,
                  warnings := warnings v1 @ ref_warnings av sid refs\<rparr>"
    by auto
  have "UndeclaredOutputRef sid Y X \<in> set (ref_warnings av sid refs)"
    using ref(2) d y by (force simp: ref_warnings_def)
  moreover have "UnknownStepRef sid X \<notin> set (ref_errors av sid refs)"
    using d by (auto simp: ref_errors_def)
  ultimately show ?thesis using l s w v2 by auto
qed

text \<open>
  C10, as the code has it. Let the step \<open>S\<close> with id \<open>X\<close> refer to its own outputs: \<open>(X, Y)\<close>
  is a match of the pattern in its serialised inputs. If no step declared before \<open>S\<close>
  carries the same id together with an \<^verbatim>\<open>outputs\<close> key, then the iteration of \<open>S\<close> appends
  the unknown-step error for \<open>S\<close> and \<open>X\<close>, whether or not \<open>S\<close> itself declares outputs:
  they are registered after its inputs have been scanned. The error stays in the result.
\<close>

theorem data_flow_self_reference_error:
  assumes steps: "py_iter steps = Inr (pre @ S # post)"
      and run: "validate_data_flow steps v = Inr v'"
      and no_earlier: "\<forall>s \<in> set pre. py_get s ''id'' (JStr ''unknown'') = Inr (JStr X)
             \<longrightarrow> py_contains ''outputs'' s \<noteq> Inr True"
      and sid: "py_get S ''id'' (JStr ''unknown'') = Inr (JStr X)"
      and ref: "step_refs S = Inr refs" "(X, Y) \<in> set refs"
  shows "\<exists>v1 av v2 av2 es es'.
       forM pre data_flow_step (v, Map.empty) = Inr (v1, av)
     \<and> data_flow_step S (v1, av) = Inr (v2, av2)
     \<and> errors v2 = errors v1 @ es
     \<and> UnknownStepRef (JStr X) X \<in> set es
     \<and> errors v' = errors v2 @ es'"
proof -
  from validate_data_flow_split [OF steps run] obtain v1 av v2 av2 es' ws' where
    l: "forM pre data_flow_step (v, Map.empty) = Inr (v1, av)" and
    s: "data_flow_step S (v1, av) = Inr (v2, av2)" and
    e: "errors v' = errors v2 @ es'"
    by blast
  from forM_data_flow_available [OF l] have
    a1: "\<And>k d. av k = Some d \<Longrightarrow> \<exists>s \<in> set pre. step_key s = Inr k
           \<and> py_contains ''outputs'' s = Inr True \<and> d = declared_fields s"
    by blast
  have n: "av (HStr X) = None"
  proof (rule ccontr)
    assume "av (HStr X) \<noteq> None"
    then obtain d where "av (HStr X) = Some d" by auto
    from a1 [OF this] no_earlier show False by (auto simp: step_key_str)
  qed
  from data_flow_step_result [OF s] sid ref(1) have
    v2: "v2 = v1\<lparr>errors := errors v1 @ ref_errors av (JStr X) refs,
                  warnings := warnings v1 @ ref_warnings av (JStr X) refs\<rparr>"
    by auto
  have "UnknownStepRef (JStr X) X \<in> set (ref_errors av (JStr X) refs)"
    using ref(2) n by (force simp: ref_errors_def)
  then show ?thesis using l s e v2 by auto
qed

text \<open>
  Two steps for the examples: \<open>b\<close> refers to a field that \<open>a\<close> does not declare and to
  a field of its own.
\<close>

definition data_flow_steps :: "json list" where
  "data_flow_steps =
     [JObj [(''id'', JStr ''a''), (''outputs'', JObj [(''x'', JStr ''$.x'')])]]
     @ JObj [(''id'', JStr ''b''),
             (''inputs'', JObj [(''q'', JStr ''{{steps.a.outputs.y}} {{steps.b.outputs.z}}'')]),
             (''outputs'', JObj [(''z'', JStr ''$.z'')])]
     # []"

lemma data_flow_steps_run:
  "validate_data_flow (JArr data_flow_steps) (WorkflowValidator False)
     = Inr \<lparr>strict_mode = False, errors = [UnknownStepRef (JStr ''b'') ''b''],
            warnings = [UndeclaredOutputRef (JStr ''b'') ''y'' ''a''], info = []\<rparr>"
  by code_simp

lemma data_flow_steps_refs:
  "step_refs (JObj [(''id'', JStr ''b''),
             (''inputs'', JObj [(''q'', JStr ''{{steps.a.outputs.y}} {{steps.b.outputs.z}}'')]),
             (''outputs'', JObj [(''z'', JStr ''$.z'')])])
     = Inr [(''a'', ''y''), (''b'', ''z'')]"
  by code_simp

theorem data_flow_undeclared_field_warning_witness:
  "\<exists>v1 av v2 av2 es ws ws'.
       forM [JObj [(''id'', JStr ''a''), (''outputs'', JObj [(''x'', JStr ''$.x'')])]]
         data_flow_step (WorkflowValidator False, Map.empty) = Inr (v1, av)
     \<and> data_flow_step (JObj [(''id'', JStr ''b''),
             (''inputs'', JObj [(''q'', JStr ''{{steps.a.outputs.y}} {{steps.b.outputs.z}}'')]),
             (''outputs'', JObj [(''z'', JStr ''$.z'')])]) (v1, av) = Inr (v2, av2)
     \<and> errors v2 = errors v1 @ es \<and> warnings v2 = warnings v1 @ ws
     \<and> UndeclaredOutputRef (JStr ''b'') ''y'' ''a'' \<in> set ws
     \<and> UnknownStepRef (JStr ''b'') ''a'' \<notin> set es
     \<and> warnings \<lparr>strict_mode = False, errors = [UnknownStepRef (JStr ''b'') ''b''],
            warnings = [UndeclaredOutputRef (JStr ''b'') ''y'' ''a''], info = []\<rparr>
         = warnings v2 @ ws'"
proof (rule data_flow_undeclared_field_warning [where steps = "JArr data_flow_steps"
      and post = "[]" and X_step = "JObj [(''id'', JStr ''a''), (''outputs'', JObj [(''x'', JStr ''$.x'')])]"
      and refs = "[(''a'', ''y''), (''b'', ''z'')]"])
  show "py_iter (JArr data_flow_steps)
      = Inr ([JObj [(''id'', JStr ''a''), (''outputs'', JObj [(''x'', JStr ''$.x'')])]]
     @ JObj [(''id'', JStr ''b''),
             (''inputs'', JObj [(''q'', JStr ''{{steps.a.outputs.y}} {{steps.b.outputs.z}}'')]),
             (''outputs'', JObj [(''z'', JStr ''$.z'')])]
     # [])"
    by (simp add: data_flow_steps_def)
  show "validate_data_flow (JArr data_flow_steps) (WorkflowValidator False)
     = Inr \<lparr>strict_mode = False, errors = [UnknownStepRef (JStr ''b'') ''b''],
            warnings = [UndeclaredOutputRef (JStr ''b'') ''y'' ''a''], info = []\<rparr>"
    by (rule data_flow_steps_run)
  show "step_refs (JObj [(''id'', JStr ''b''),
             (''inputs'', JObj [(''q'', JStr ''{{steps.a.outputs.y}} {{steps.b.outputs.z}}'')]),
             (''outputs'', JObj [(''z'', JStr ''$.z'')])])
     = Inr [(''a'', ''y''), (''b'', ''z'')]"
    by (rule data_flow_steps_refs)
qed (simp_all add: declared_fields_def)

theorem data_flow_self_reference_error_witness:
  "\<exists>v1 av v2 av2 es es'.
       forM [JObj [(''id'', JStr ''a''), (''outputs'', JObj [(''x'', JStr ''$.x'')])]]
         data_flow_step (WorkflowValidator False, Map.empty) = Inr (v1, av)
     \<and> data_flow_step (JObj [(''id'', JStr ''b''),
             (''inputs'', JObj [(''q'', JStr ''{{steps.a.outputs.y}} {{steps.b.outputs.z}}'')]),
             (''outputs'', JObj [(''z'', JStr ''$.z'')])]) (v1, av) = Inr (v2, av2)
     \<and> errors v2 = errors v1 @ es
     \<and> UnknownStepRef (JStr ''b'') ''b'' \<in> set es
     \<and> errors \<lparr>strict_mode = False, errors = [UnknownStepRef (JStr ''b'') ''b''],
            warnings = [UndeclaredOutputRef (JStr ''b'') ''y'' ''a''], info = []\<rparr>
         = errors v2 @ es'"
proof (rule data_flow_self_reference_error [where steps = "JArr data_flow_steps"
      and post = "[]" and refs = "[(''a'', ''y''), (''b'', ''z'')]" and Y = "''z''"])
  show "py_iter (JArr data_flow_steps)
      = Inr ([JObj [(''id'', JStr ''a''), (''outputs'', JObj [(''x'', JStr ''$.x'')])]]
     @ JObj [(''id'', JStr ''b''),
             (''inputs'', JObj [(''q'', JStr ''{{steps.a.outputs.y}} {{steps.b.outputs.z}}'')]),
             (''outputs'', JObj [(''z'', JStr ''$.z'')])]
     # [])"
    by (simp add: data_flow_steps_def)
  show "validate_data_flow (JArr data_flow_steps) (WorkflowValidator False)
     = Inr \<lparr>strict_mode = False, errors = [UnknownStepRef (JStr ''b'') ''b''],
            warnings = [UndeclaredOutputRef (JStr ''b'') ''y'' ''a''], info = []\<rparr>"
    by (rule data_flow_steps_run)
  show "step_refs (JObj [(''id'', JStr ''b''),
             (''inputs'', JObj [(''q'', JStr ''{{steps.a.outputs.y}} {{steps.b.outputs.z}}'')]),
             (''outputs'', JObj [(''z'', JStr ''$.z'')])])
     = Inr [(''a'', ''y''), (''b'', ''z'')]"
    by (rule data_flow_steps_refs)
qed simp_all

text \<open>
  Two steps share the id \<open>s\<close>: the reference of the second to \<open>s\<close> finds the outputs
  registered by the first, and the check reports nothing.
\<close>

theorem data_flow_repeated_id:
  "validate_data_flow
     (JArr [JObj [(''id'', JStr ''s''), (''outputs'', JObj [(''y'', JStr ''$.y'')])],
            JObj [(''id'', JStr ''s''),
                  (''inputs'', JObj [(''q'', JStr ''{{steps.s.outputs.y}}'')]),
                  (''outputs'', JObj [(''y'', JStr ''$.y'')])]])
     (WorkflowValidator False)
   = Inr (WorkflowValidator False)
   \<and> step_refs (JObj [(''id'', JStr ''s''),
                  (''inputs'', JObj [(''q'', JStr ''{{steps.s.outputs.y}}'')]),
                  (''outputs'', JObj [(''y'', JStr ''$.y'')])])
     = Inr [(''s'', ''y'')]
   \<and> errors (WorkflowValidator False) = []"
  by code_simp

subsection \<open>Circular dependencies\<close>

































text \<open>
  Three steps for the example: \<open>a\<close> and \<open>b\<close> depend on each other, and \<open>c\<close> depends on
  \<open>a\<close> and on a step that does not exist.
\<close>

definition cyclic_steps :: "json list" where
  "cyclic_steps =
     [JObj [(''id'', JStr ''c''), (''depends_on'', JArr [JStr ''a'', JStr ''ghost''])],
      JObj [(''id'', JStr ''a''), (''depends_on'', JArr [JStr ''b''])],
      JObj [(''id'', JStr ''b''), (''depends_on'', JArr [JStr ''a''])]]"


text \<open>The run on the example: the unknown dependency of \<open>c\<close>, then the cycle.\<close>

lemma cyclic_steps_run:
  "validate_dependencies (JArr cyclic_steps) (WorkflowValidator False)
     = Inr \<lparr>strict_mode = False,
            errors = [DependsOnUnknown (JStr ''c'') (JStr ''ghost''), CircularDependency],
            warnings = [], info = []\<rparr>"
  by code_simp

section \<open>Properties of the dry-run executor\<close>

subsection \<open>Mock outputs\<close>












subsection \<open>Steps that record no outputs\<close>

text \<open>
  C4 fails on the code. A \<^verbatim>\<open>workflow\<close> step and a \<^verbatim>\<open>custom\<close> step run without a fault and
  leave no entry in \<^verbatim>\<open>simulated_outputs\<close>; the query step that depends on the first of
  them then ends the run with the dependency fault.
\<close>

theorem execute_steps_after_workflow_step:
  "execute_steps example_world
     (JObj [(''steps'', JArr [
        JObj [(''id'', JStr ''w''), (''operation'', JStr ''workflow'')],
        JObj [(''id'', JStr ''c''), (''operation'', JStr ''custom'')],
        JObj [(''id'', JStr ''b''), (''operation'', JStr ''query''),
              (''depends_on'', JArr [JStr ''w''])]])])
     (DryRunExecutor example_world False)
   = Inr ((DryRunExecutor example_world False)\<lparr>faults := [DependencyNotSatisfied ''w'']\<rparr>, False)"
  by code_simp

subsection \<open>A workflow without metadata\<close>

text \<open>
  C6 fails on the code. \<^verbatim>\<open>execute\<close> reads \<^verbatim>\<open>workflow['metadata']\<close> by subscript for its
  header: on a workflow that has no metadata section it raises \<^verbatim>\<open>KeyError\<close>.
\<close>

theorem execute_without_metadata:
  "execute example_world (JObj [(''steps'', JArr [])]) (DryRunExecutor example_world False)
     = Inl KeyError"
  by (simp add: execute_def)

subsection \<open>Dependencies declared later\<close>

lemma mock_value_frame:
  "simulated_outputs (snd (mock_value w key ex)) = simulated_outputs ex"
  "faults (snd (mock_value w key ex)) = faults ex"
  by (simp_all add: mock_value_def)

lemma forM_simulate_output_frame:
  assumes "forM items (simulate_output w) (acc, ex) = Inr (sim, ex')"
  shows "simulated_outputs ex' = simulated_outputs ex \<and> faults ex' = faults ex"
  using assms
proof (induction items arbitrary: acc ex)
  case Nil
  then show ?case by simp
next
  case (Cons item items)
  have step: "simulate_output w item (acc, ex)
      = Inr (AList.update (fst item) (fst (mock_value w (fst item) ex)) acc,
             snd (mock_value w (fst item) ex))"
    by (simp add: simulate_output_def Let_def)
  from Cons.prems have
    "forM items (simulate_output w)
       (AList.update (fst item) (fst (mock_value w (fst item) ex)) acc,
        snd (mock_value w (fst item) ex)) = Inr (sim, ex')"
    by (simp add: step)
  from Cons.IH [OF this] show ?case by (simp add: mock_value_frame)
qed

lemma simulate_outputs_frame:
  assumes "simulate_outputs w step ex = Inr (sim, ex')"
  shows "simulated_outputs ex' = simulated_outputs ex \<and> faults ex' = faults ex"
proof -
  from assms obtain items where "forM items (simulate_output w) ([], ex) = Inr (sim, ex')"
    by (auto simp: simulate_outputs_def bindE_def split: sum.splits)
  then show ?thesis by (rule forM_simulate_output_frame)
qed

lemma record_outputs_keys:
  assumes "record_outputs w step step_id ex = Inr (ex', ok)"
  shows "ok \<and> faults ex' = faults ex \<and>
    (\<exists>k outs. py_hash step_id = Inr k \<and>
       map_of (simulated_outputs ex') = (map_of (simulated_outputs ex))(k \<mapsto> outs))"
proof -
  from assms obtain sim ex1 k where
    s: "simulate_outputs w step ex = Inr (sim, ex1)" and
    k: "py_hash step_id = Inr k" and
    e: "ex' = ex1\<lparr>simulated_outputs := AList.update k sim (simulated_outputs ex1)\<rparr>" and
    ok: "ok"
    by (auto simp: record_outputs_def bindE_def split: sum.splits)
  from simulate_outputs_frame [OF s] e k ok show ?thesis
    by (auto simp: map_of_update)
qed

lemma simulate_step_keys:
  assumes "simulate_step w step ex = Inr (ex', ok)"
  shows "ok \<and> faults ex' = faults ex \<and>
    (map_of (simulated_outputs ex') = map_of (simulated_outputs ex) \<or>
     (\<exists>k outs. step_key step = Inr k \<and>
        map_of (simulated_outputs ex') = (map_of (simulated_outputs ex))(k \<mapsto> outs)))"
proof -
  from assms obtain step_id operation where
    i: "py_get step ''id'' (JStr ''unknown'') = Inr step_id" and
    "py_get step ''operation'' (JStr ''unknown'') = Inr operation" and
    r: "(if operation = JStr ''query'' then record_outputs w step step_id ex
         else if operation = JStr ''mutation'' then record_outputs w step step_id ex
         else if operation = JStr ''workflow'' then Inr (ex, True)
         else Inr (ex, True)) = Inr (ex', ok)"
    by (cases "py_get step ''id'' (JStr ''unknown'')";
        cases "py_get step ''operation'' (JStr ''unknown'')")
       (auto simp: simulate_step_def)
  show ?thesis
  proof (cases "operation = JStr ''query'' \<or> operation = JStr ''mutation''")
    case True
    with r have "record_outputs w step step_id ex = Inr (ex', ok)" by (auto split: if_splits)
    from record_outputs_keys [OF this] i show ?thesis
      by (auto simp: step_key_def)
  next
    case False
    with r show ?thesis by (auto split: if_splits)
  qed
qed

lemma execute_step_keys:
  assumes "execute_step w (i, step) ex = Inr (ex', True)"
  shows "faults ex' = faults ex \<and>
    (map_of (simulated_outputs ex') = map_of (simulated_outputs ex) \<or>
     (\<exists>k outs. step_key step = Inr k \<and>
        map_of (simulated_outputs ex') = (map_of (simulated_outputs ex))(k \<mapsto> outs)))"
proof -
  from assms have "simulate_step w step ex = Inr (ex', True)"
    by (auto simp: execute_step_def bindE_def Let_def split: sum.splits option.splits)
  from simulate_step_keys [OF this] show ?thesis by simp
qed

lemma steps_loop_keys:
  assumes "steps_loop w isteps ex = Inr (ex', True)"
  shows "faults ex' = faults ex \<and>
    dom (map_of (simulated_outputs ex'))
      \<subseteq> dom (map_of (simulated_outputs ex)) \<union> {k. Inr k \<in> step_key ` snd ` set isteps}"
  using assms
proof (induction isteps arbitrary: ex)
  case Nil
  then show ?case by simp
next
  case (Cons istep isteps)
  obtain i step where istep: "istep = (i, step)" by (cases istep)
  from Cons.prems obtain ex1 where
    s: "execute_step w (i, step) ex = Inr (ex1, True)" and
    l: "steps_loop w isteps ex1 = Inr (ex', True)"
    by (auto simp: istep bindE_def split: sum.splits if_splits)
  from execute_step_keys [OF s] have
    "faults ex1 = faults ex" and
    "dom (map_of (simulated_outputs ex1))
       \<subseteq> dom (map_of (simulated_outputs ex)) \<union> {k. step_key step = Inr k}"
    by auto
  with Cons.IH [OF l] show ?case
    by (auto simp: istep image_iff) force+
qed

lemma steps_loop_append:
  "steps_loop w (xs @ ys) ex =
     bindE (steps_loop w xs ex) (\<lambda>r.
     if snd r then steps_loop w ys (fst r) else Inr (fst r, False))"
proof (induction xs arbitrary: ex)
  case Nil
  show ?case by simp
next
  case (Cons x xs)
  show ?case
    by (cases "execute_step w x ex") (auto simp: Cons.IH)
qed

lemma enumerate_from0_append:
  "enumerate_from0 (xs @ y # ys) =
     enumerate_from0 xs @ (length xs, y) # zip [Suc (length xs)..<Suc (length xs + length ys)] ys"
proof -
  have "[0..<length xs + Suc (length ys)]
      = [0..<length xs] @ length xs # [Suc (length xs)..<Suc (length xs + length ys)]"
    by (metis add_Suc_right le_add1 upt_add_eq_append upt_conv_Cons zero_le less_add_Suc1 add_Suc)
  then show ?thesis by (simp add: enumerate_from0_def)
qed

lemma snd_set_enumerate: "snd ` set (enumerate_from0 xs) = set xs"
proof -
  have "set (map snd (zip [0..<length xs] xs)) = set xs" by (simp add: map_snd_zip)
  then show ?thesis unfolding enumerate_from0_def set_map .
qed

lemma as_strings_nonempty:
  "py_join_items c = Inr deps \<Longrightarrow> deps \<noteq> [] \<Longrightarrow> truthy c"
  by (cases c) (auto simp: py_join_items_def)

lemma py_get_ok:
  "py_get step key dflt = Inr x \<Longrightarrow> \<exists>y. py_get step key' dflt' = Inr y"
  by (cases step) auto

lemma execute_step_missing:
  assumes deps: "py_get step ''depends_on'' (JArr []) = Inr depends_on"
                "py_join_items depends_on = Inr deps"
      and d: "d \<in> set deps"
      and missing: "map_of (simulated_outputs ex) (HStr d) = None"
  shows "\<exists>d'. d' \<in> set deps \<and>
     execute_step w (i, step) ex
       = Inr (ex\<lparr>faults := faults ex @ [DependencyNotSatisfied d']\<rparr>, False)"
proof -
  from py_get_ok [OF deps(1)] obtain step_id where
    i: "py_get step ''id'' (JStr (''step_'' @ show_int (int i + 1))) = Inr step_id"
    by blast
  from d have "deps \<noteq> []" by auto
  with deps(2) have t: "truthy depends_on" by (rule as_strings_nonempty)
  let ?P = "\<lambda>dep. map_of (simulated_outputs ex) (HStr dep) = None"
  from d missing have "find ?P deps \<noteq> None"
    by (auto simp: find_None_iff)
  then obtain d' where f: "find ?P deps = Some d'" by auto
  then have "d' \<in> set deps"
    by (auto simp: find_Some_iff)
  moreover have "execute_step w (i, step) ex
       = Inr (ex\<lparr>faults := faults ex @ [DependencyNotSatisfied d']\<rparr>, False)"
    using i deps t f by (simp add: execute_step_def)
  ultimately show ?thesis by blast
qed

text \<open>
  C5. Let \<open>step\<close> be a step of the list that the run reaches (the steps \<open>pre\<close> before it
  ran without a fault, from an executor with no recorded outputs), and let its
  \<^verbatim>\<open>depends_on\<close> name \<open>d\<close>, where no step before it has the id \<open>d\<close> (the id of a step
  being \<^verbatim>\<open>step.get('id', 'unknown')\<close>, as the executor records it); \<open>d\<close> may be the id
  of a later step. Then \<^verbatim>\<open>_execute_steps\<close> returns false at that step, reporting a
  dependency of the step as not satisfied, and records nothing more.
\<close>

theorem execute_steps_unsatisfied_dependency:
  assumes steps: "py_get workflow ''steps'' (JArr []) = Inr (JArr (pre @ step # post))"
      and fresh: "simulated_outputs ex = []"
      and reach: "steps_loop w (enumerate_from0 pre) ex = Inr (ex1, True)"
      and deps: "py_get step ''depends_on'' (JArr []) = Inr depends_on"
                "py_join_items depends_on = Inr deps"
      and d: "d \<in> set deps"
      and later: "Inr (JStr d) \<notin> (\<lambda>s. py_get s ''id'' (JStr ''unknown'')) ` set pre"
  shows "\<exists>d'. d' \<in> set deps \<and>
     execute_steps w workflow ex
       = Inr (ex1\<lparr>faults := faults ex @ [DependencyNotSatisfied d']\<rparr>, False)"
proof -
  from steps_loop_keys [OF reach] fresh have
    f: "faults ex1 = faults ex" and
    k: "dom (map_of (simulated_outputs ex1)) \<subseteq> {k. Inr k \<in> step_key ` set pre}"
    by (simp_all add: snd_set_enumerate)
  have "Inr (HStr d) \<notin> step_key ` set pre"
  proof
    assume "Inr (HStr d) \<in> step_key ` set pre"
    then obtain s where s: "s \<in> set pre" "step_key s = Inr (HStr d)" by force
    then obtain sid where sid: "py_get s ''id'' (JStr ''unknown'') = Inr sid" "py_hash sid = Inr (HStr d)"
      by (auto simp: step_key_def bindE_def split: sum.splits)
    from sid(2) have "sid = JStr d" by (cases sid) (auto split: if_splits)
    with sid(1) s(1) later show False by force
  qed
  with k have "map_of (simulated_outputs ex1) (HStr d) = None" by auto
  from execute_step_missing [OF deps d this, of w "length pre"] obtain d' where
    d': "d' \<in> set deps" and
    e: "execute_step w (length pre, step) ex1
       = Inr (ex1\<lparr>faults := faults ex1 @ [DependencyNotSatisfied d']\<rparr>, False)"
    by blast
  have "execute_steps w workflow ex
      = steps_loop w (enumerate_from0 (pre @ step # post)) ex"
    using steps by (simp add: execute_steps_def)
  also have "\<dots> = Inr (ex1\<lparr>faults := faults ex1 @ [DependencyNotSatisfied d']\<rparr>, False)"
    using reach e by (simp add: enumerate_from0_append steps_loop_append)
  finally show ?thesis using d' f by auto
qed

text \<open>Step \<open>b\<close> depends on \<open>a\<close>, which is declared after it.\<close>

definition later_dependency_workflow :: json where
  "later_dependency_workflow = JObj [
     (''metadata'', JObj [(''workflow_name'', JStr ''my_flow''), (''platform'', JStr ''crm'')]),
     (''steps'', JArr ([JObj [(''id'', JStr ''c''), (''operation'', JStr ''query'')]]
        @ JObj [(''id'', JStr ''b''), (''operation'', JStr ''query''),
                (''depends_on'', JArr [JStr ''a''])]
        # [JObj [(''id'', JStr ''a''), (''operation'', JStr ''query'')]]))]"

theorem execute_steps_unsatisfied_dependency_witness:
  "\<exists>d'. d' \<in> set [''a''] \<and>
     execute_steps example_world later_dependency_workflow (DryRunExecutor example_world False)
       = Inr ((DryRunExecutor example_world False)
                \<lparr>simulated_outputs := [(HStr ''c'', [])]\<rparr>
                \<lparr>faults := faults (DryRunExecutor example_world False)
                     @ [DependencyNotSatisfied d']\<rparr>, False)"
proof (rule execute_steps_unsatisfied_dependency)
  show "py_get later_dependency_workflow ''steps'' (JArr [])
      = Inr (JArr ([JObj [(''id'', JStr ''c''), (''operation'', JStr ''query'')]]
        @ JObj [(''id'', JStr ''b''), (''operation'', JStr ''query''),
                (''depends_on'', JArr [JStr ''a''])]
        # [JObj [(''id'', JStr ''a''), (''operation'', JStr ''query'')]]))"
    by (simp add: later_dependency_workflow_def)
  show "simulated_outputs (DryRunExecutor example_world False) = []"
    by (simp add: DryRunExecutor_def)
  show "steps_loop example_world
      (enumerate_from0 [JObj [(''id'', JStr ''c''), (''operation'', JStr ''query'')]])
      (DryRunExecutor example_world False)
    = Inr ((DryRunExecutor example_world False)\<lparr>simulated_outputs := [(HStr ''c'', [])]\<rparr>, True)"
    by code_simp
  show "py_get (JObj [(''id'', JStr ''b''), (''operation'', JStr ''query''),
                (''depends_on'', JArr [JStr ''a''])]) ''depends_on'' (JArr [])
      = Inr (JArr [JStr ''a''])"
    by simp
  show "py_join_items (JArr [JStr ''a'']) = Inr [''a'']"
    by (simp add: py_join_items_def)
  show "''a'' \<in> set [''a'']" by simp
  show "Inr (JStr ''a'') \<notin> (\<lambda>s. py_get s ''id'' (JStr ''unknown''))
      ` set [JObj [(''id'', JStr ''c''), (''operation'', JStr ''query'')]]"
    by simp
qed

end
